theory Spec2Isabelle
  imports Main "HOL-Library.AList"
begin

section \<open>Cloud functions of the notification outbox and the expiring posts\<close>

text \<open>
  A shallow embedding of \<^verbatim>\<open>functions/index.js\<close>: the trigger
  \<^verbatim>\<open>sendPushNotification\<close>, the two scheduled jobs
  \<^verbatim>\<open>cleanupNotificationQueue\<close> and \<^verbatim>\<open>cleanupExpiredPosts\<close>, and the
  HTTP handler \<^verbatim>\<open>sendTestNotification\<close>. The document store and the push
  provider are external: they are a state (\<open>world\<close>) that every call reads and
  updates, with the outcome of each call (success, or the error it raises) given by
  the state, so that every \<^verbatim>\<open>await\<close> of the source may succeed or throw.
\<close>

subsection \<open>JavaScript values, errors and completions\<close>

datatype jsval =
    JUndefined
  | JNull
  | JBool bool
  | JNum int
  | JStr string
  | JTime int
  | JObj "(string \<times> jsval) list"

text \<open>\<open>JTime\<close> is a store timestamp, in milliseconds. Numbers are integers: no field
  the functions compute with holds a fraction.\<close>

fun truthy :: "jsval \<Rightarrow> bool" where
  "truthy JUndefined = False"
| "truthy JNull = False"
| "truthy (JBool b) = b"
| "truthy (JNum n) = (n \<noteq> 0)"
| "truthy (JStr s) = (s \<noteq> [])"
| "truthy (JTime t) = True"
| "truthy (JObj kvs) = True"

text \<open>\<^verbatim>\<open>a || b\<close>\<close>

definition js_or :: "jsval \<Rightarrow> jsval \<Rightarrow> jsval" where
  "js_or a b = (if truthy a then a else b)"

text \<open>A document, or any object, is the list of its keys and values; read at a key
  it gives \<^verbatim>\<open>undefined\<close> where the key is absent.\<close>

type_synonym doc = "(string \<times> jsval) list"

definition field :: "doc \<Rightarrow> string \<Rightarrow> jsval" where
  "field d k = (case map_of d k of None \<Rightarrow> JUndefined | Some v \<Rightarrow> v)"


function show_nat :: "nat \<Rightarrow> string" where
  "show_nat n =
     (if n < 10 then [char_of (48 + n)]
      else show_nat (n div 10) @ [char_of (48 + n mod 10)])"
  by pat_completeness auto
termination
  by (relation "measure id") auto

declare show_nat.simps [simp del]

definition show_int :: "int \<Rightarrow> string" where
  "show_int i = (if i < 0 then CHR ''-'' # show_nat (nat (- i)) else show_nat (nat i))"

text \<open>
  A string of the model is the UTF-8 encoding of the JavaScript string (the default
  title below has a letter outside ASCII). JavaScript indexes a string by UTF-16
  code unit: \<open>code_units\<close> cuts the bytes into the encodings of the successive code
  units, one for a sequence of one, two or three bytes, and the two surrogates (each
  written as three bytes) for a sequence of four.
\<close>

definition unit_bytes :: "nat \<Rightarrow> string" where
  "unit_bytes u = [char_of (224 + u div 4096), char_of (128 + (u div 64) mod 64),
     char_of (128 + u mod 64)]"

definition surrogates :: "string \<Rightarrow> string list" where
  "surrogates bs =
     (let b = map (of_char :: char \<Rightarrow> nat) (bs @ replicate (4 - length bs) (CHR 0x80));
          cp = (b ! 0 mod 8) * 262144 + (b ! 1 mod 64) * 4096 + (b ! 2 mod 64) * 64 + b ! 3 mod 64
      in [unit_bytes (55296 + (cp - 65536) div 1024), unit_bytes (56320 + (cp - 65536) mod 1024)])"

function code_units :: "string \<Rightarrow> string list" where
  "code_units [] = []"
| "code_units (c # cs) =
     (if (of_char c :: nat) < 192 then [c] # code_units cs
      else if (of_char c :: nat) < 224 then (c # take 1 cs) # code_units (drop 1 cs)
      else if (of_char c :: nat) < 240 then (c # take 2 cs) # code_units (drop 2 cs)
      else surrogates (c # take 3 cs) @ code_units (drop 3 cs))"
  by pat_completeness auto
termination
  by (relation "measure length") auto

text \<open>The own enumerable properties that \<^verbatim>\<open>{...v}\<close> copies: those of an object;
  the code units of a string, keyed by index; the seconds and nanoseconds of a
  timestamp; none of \<^verbatim>\<open>undefined\<close>, \<^verbatim>\<open>null\<close>, a boolean or a number.\<close>

fun spread :: "jsval \<Rightarrow> doc" where
  "spread (JObj kvs) = kvs"
| "spread (JStr s) =
     zip (map show_nat [0..<length (code_units s)]) (map JStr (code_units s))"
| "spread (JTime t) = [(''_seconds'', JNum (t div 1000)),
                       (''_nanoseconds'', JNum ((t mod 1000) * 1000000))]"
| "spread v = []"

datatype js_error = Error (code: jsval) (message: string)

datatype 'a completion = Normal 'a | Throw js_error

subsection \<open>The store and the provider\<close>

datatype ref =
    QueueRef string
  | ProfileRef string
  | QuestionRef string
  | AnswerRef string string
  | PathRef "string list"

text \<open>\<open>AnswerRef q a\<close> is the document \<^verbatim>\<open>questions/q/answers/a\<close>;
  \<open>PathRef p\<close> is a document of any other collection, by the segments of its path.\<close>

datatype field_value =
    Value jsval
  | ServerTimestamp
  | DeleteField

record message =
  notification_title :: jsval
  notification_body :: jsval
  data :: doc
  token :: jsval
  android :: jsval
  apns :: jsval

datatype call =
    Send message
  | Update ref "(string \<times> field_value) list"
  | Add string "(string \<times> field_value) list"
  | Commit "ref list"

datatype console_entry =
    LogAlreadySent string
  | ErrNoToken jsval
  | LogSent jsval string
  | ErrSend jsval js_error
  | LogInvalidToken jsval
  | ErrRemoveToken js_error
  | LogCleaned nat
  | LogStart
  | LogNoExpired
  | LogFound nat
  | LogProgress nat nat
  | ErrDeleteQuestion string js_error
  | LogDone nat nat
  | ErrTestNotification js_error

text \<open>
  The state of everything outside the functions. A collection is the list of its
  documents, in the order its queries return them; \<open>other_docs\<close> holds the
  documents of the collections that the functions do not name, by path. \<open>read_faults\<close> and
  \<open>write_faults\<close> give the outcome of the successive reads and writes of the store:
  the head is the outcome of the next one (\<open>None\<close>: it succeeds; \<open>Some e\<close>: it
  raises \<open>e\<close>), and past the end of the list every call succeeds. \<open>fcm_result\<close> is
  the provider's answer to a send. \<open>calls\<close> lists the requests made to the store
  and to the provider, the last one first; \<open>console\<close> the lines logged, the last
  one first.
\<close>

record world =
  date_now :: int
  server_time :: int
  queue_docs :: "(string \<times> doc) list"
  profile_docs :: "(string \<times> doc) list"
  question_docs :: "(string \<times> doc) list"
  answer_docs :: "((string \<times> string) \<times> doc) list"
  other_docs :: "(string list \<times> doc) list"
  fcm_result :: "string completion"
  read_faults :: "js_error option list"
  write_faults :: "js_error option list"
  calls :: "call list"
  console :: "console_entry list"

definition console_log :: "console_entry \<Rightarrow> world \<Rightarrow> world" where
  "console_log l w = w\<lparr>console := l # console w\<rparr>"

fun next_fault :: "js_error option list \<Rightarrow> js_error option \<times> js_error option list" where
  "next_fault [] = (None, [])"
| "next_fault (f # fs) = (f, fs)"

definition not_found :: js_error where
  "not_found = Error (JNum 5) ''NOT_FOUND: No document to update''"

definition apply_field :: "int \<Rightarrow> string \<times> field_value \<Rightarrow> doc \<Rightarrow> doc" where
  "apply_field ts kv d =
     (case snd kv of
        Value v \<Rightarrow> AList.update (fst kv) v d
      | ServerTimestamp \<Rightarrow> AList.update (fst kv) (JTime ts) d
      | DeleteField \<Rightarrow> AList.delete (fst kv) d)"

definition apply_fields :: "int \<Rightarrow> (string \<times> field_value) list \<Rightarrow> doc \<Rightarrow> doc" where
  "apply_fields ts kvs d = fold (apply_field ts) kvs d"

text \<open>
  A collection's \<^verbatim>\<open>.doc(id)\<close>, as the store client resolves it. The id must be a
  non-empty string without \<^verbatim>\<open>//\<close>; it is split at \<^verbatim>\<open>/\<close> and its empty
  segments are dropped (a slash may lead or trail); and the segments, after the
  one segment of the collection, must make a document path, which has an even
  number of segments. Otherwise the call throws. The result is the list of the
  segments of the id.
\<close>

definition quoted :: "string \<Rightarrow> string" where
  "quoted s = [CHR 0x22] @ s @ [CHR 0x22]"

definition invalid_path :: js_error where
  "invalid_path = Error JUndefined
     (''Value for argument '' @ quoted ''documentPath'' @
      '' is not a valid resource path. Path must be a non-empty string.'')"

definition double_slash_path :: js_error where
  "double_slash_path = Error JUndefined
     (''Value for argument '' @ quoted ''documentPath'' @
      '' is not a valid resource path. Paths must not contain //.'')"

definition not_a_document :: "string \<Rightarrow> js_error" where
  "not_a_document s = Error JUndefined
     (''Value for argument '' @ quoted ''documentPath'' @
      '' must point to a document, but was '' @ quoted s @
      ''. Your path does not contain an even number of components.'')"

fun has_double_slash :: "string \<Rightarrow> bool" where
  "has_double_slash (a # b # cs) = ((a = CHR ''/'' \<and> b = CHR ''/'') \<or> has_double_slash (b # cs))"
| "has_double_slash cs = False"

text \<open>\<^verbatim>\<open>s.split('/').filter(segment => segment.length > 0)\<close>; \<open>seg\<close> is the segment
  being read, its last character first.\<close>

fun segments :: "string \<Rightarrow> string \<Rightarrow> string list" where
  "segments seg [] = (if seg = [] then [] else [rev seg])"
| "segments seg (c # cs) =
     (if c = CHR ''/'' then (if seg = [] then segments [] cs else rev seg # segments [] cs)
      else segments (c # seg) cs)"

definition split_path :: "string \<Rightarrow> string list" where
  "split_path s = segments [] s"

fun doc_path :: "jsval \<Rightarrow> string list completion" where
  "doc_path (JStr s) =
     (if s = [] then Throw invalid_path
      else if has_double_slash s then Throw double_slash_path
      else if even (length (split_path s)) then Throw (not_a_document s)
      else Normal (split_path s))"
| "doc_path v = Throw invalid_path"

text \<open>The document of the collection \<^verbatim>\<open>profiles\<close> at such a path: a profile when
  the path is one segment, a document of a collection nested under a profile
  otherwise.\<close>

definition profile_ref :: "string list \<Rightarrow> ref" where
  "profile_ref segs = (case segs of [k] \<Rightarrow> ProfileRef k | _ \<Rightarrow> PathRef (''profiles'' # segs))"

text \<open>\<^verbatim>\<open>ref.update(fields)\<close>: the request is made; it raises the error the store
  answers with, or \<open>not_found\<close> where the document does not exist; otherwise the
  fields are merged into the document.\<close>

definition update_in :: "int \<Rightarrow> 'k \<Rightarrow> (string \<times> field_value) list \<Rightarrow>
    ('k \<times> doc) list \<Rightarrow> ('k \<times> doc) list" where
  "update_in ts k kvs ds = map (\<lambda>(k', d). if k' = k then (k', apply_fields ts kvs d) else (k', d)) ds"

fun lookup_doc :: "ref \<Rightarrow> world \<Rightarrow> doc option" where
  "lookup_doc (QueueRef k) w = map_of (queue_docs w) k"
| "lookup_doc (ProfileRef k) w = map_of (profile_docs w) k"
| "lookup_doc (QuestionRef k) w = map_of (question_docs w) k"
| "lookup_doc (AnswerRef q a) w = map_of (answer_docs w) (q, a)"
| "lookup_doc (PathRef p) w = map_of (other_docs w) p"

fun write_doc :: "ref \<Rightarrow> (string \<times> field_value) list \<Rightarrow> world \<Rightarrow> world" where
  "write_doc (QueueRef k) kvs w = w\<lparr>queue_docs := update_in (server_time w) k kvs (queue_docs w)\<rparr>"
| "write_doc (ProfileRef k) kvs w = w\<lparr>profile_docs := update_in (server_time w) k kvs (profile_docs w)\<rparr>"
| "write_doc (QuestionRef k) kvs w = w\<lparr>question_docs := update_in (server_time w) k kvs (question_docs w)\<rparr>"
| "write_doc (AnswerRef q a) kvs w = w\<lparr>answer_docs := update_in (server_time w) (q, a) kvs (answer_docs w)\<rparr>"
| "write_doc (PathRef p) kvs w = w\<lparr>other_docs := update_in (server_time w) p kvs (other_docs w)\<rparr>"

definition store_update :: "ref \<Rightarrow> (string \<times> field_value) list \<Rightarrow> world \<Rightarrow> unit completion \<times> world" where
  "store_update r kvs w =
     (let (f, fs) = next_fault (write_faults w);
          w1 = w\<lparr>write_faults := fs, calls := Update r kvs # calls w\<rparr>
      in case f of
           Some e \<Rightarrow> (Throw e, w1)
         | None \<Rightarrow>
             if lookup_doc r w = None then (Throw not_found, w1)
             else (Normal (), write_doc r kvs w1))"

text \<open>\<^verbatim>\<open>admin.messaging().send(message)\<close>\<close>

definition fcm_send :: "message \<Rightarrow> world \<Rightarrow> string completion \<times> world" where
  "fcm_send m w = (fcm_result w, w\<lparr>calls := Send m # calls w\<rparr>)"

subsection \<open>sendPushNotification\<close>

definition default_title :: string where
  "default_title = [char_of (196::nat), char_of (176::nat)] @ ''mtahan+''"

definition android_hints :: jsval where
  "android_hints = JObj [(''priority'', JStr ''high''),
     (''notification'', JObj [(''sound'', JStr ''default''),
        (''channelId'', JStr ''imtahan_plus_notifications''),
        (''clickAction'', JStr ''FLUTTER_NOTIFICATION_CLICK'')])]"

definition apns_hints :: jsval where
  "apns_hints = JObj [(''payload'', JObj [(''aps'',
     JObj [(''sound'', JStr ''default''), (''badge'', JNum 1)])])]"

definition build_message :: "string \<Rightarrow> doc \<Rightarrow> world \<Rightarrow> message" where
  "build_message notificationId notificationData w =
     \<lparr> notification_title = js_or (field notificationData ''title'') (JStr default_title),
       notification_body = js_or (field notificationData ''body'') (JStr ''''),
       data = AList.update ''timestamp'' (JStr (show_int (date_now w)))
               (AList.update ''userId'' (field notificationData ''user_id'')
                 (AList.update ''notificationId'' (JStr notificationId)
                   (spread (field notificationData ''data'')))),
       token = field notificationData ''fcm_token'',
       android = android_hints,
       apns = apns_hints \<rparr>"

definition invalid_token_code :: "jsval \<Rightarrow> bool" where
  "invalid_token_code c \<longleftrightarrow>
     c = JStr ''messaging/invalid-registration-token'' \<or>
     c = JStr ''messaging/registration-token-not-registered''"

text \<open>The inner \<^verbatim>\<open>try\<close> of the handler: the profile's token is removed, and an
  error of that update is logged and swallowed.\<close>

definition remove_token :: "jsval \<Rightarrow> world \<Rightarrow> world" where
  "remove_token user_id w =
     (case doc_path user_id of
        Throw updateError \<Rightarrow> console_log (ErrRemoveToken updateError) w
      | Normal segs \<Rightarrow>
          (case store_update (profile_ref segs) [(''fcm_token'', DeleteField)] w of
             (Throw updateError, w1) \<Rightarrow> console_log (ErrRemoveToken updateError) w1
           | (Normal u, w1) \<Rightarrow> w1))"

text \<open>The \<^verbatim>\<open>catch (error)\<close> block.\<close>

definition on_send_error :: "string \<Rightarrow> jsval \<Rightarrow> js_error \<Rightarrow> world \<Rightarrow> unit completion \<times> world" where
  "on_send_error notificationId user_id error w =
     (let w1 = console_log (ErrSend user_id error) w in
      case store_update (QueueRef notificationId)
             [(''sent'', Value (JBool True)),
              (''error'', Value (JStr (message error))),
              (''sent_at'', ServerTimestamp)] w1 of
        (Throw e, w2) \<Rightarrow> (Throw e, w2)
      | (Normal u, w2) \<Rightarrow>
          if invalid_token_code (code error)
          then (Normal (), remove_token user_id (console_log (LogInvalidToken user_id) w2))
          else (Normal (), w2))"

text \<open>The \<^verbatim>\<open>try\<close> block: what it returns, or the error it throws to the
  \<^verbatim>\<open>catch\<close>.\<close>

definition try_send :: "string \<Rightarrow> doc \<Rightarrow> world \<Rightarrow> unit completion \<times> world" where
  "try_send notificationId notificationData w =
     (case fcm_send (build_message notificationId notificationData w) w of
        (Throw e, w1) \<Rightarrow> (Throw e, w1)
      | (Normal response, w1) \<Rightarrow>
          store_update (QueueRef notificationId)
            [(''sent'', Value (JBool True)),
             (''sent_at'', ServerTimestamp),
             (''fcm_response'', Value (JStr response))]
            (console_log (LogSent (field notificationData ''user_id'') response) w1))"

definition sendPushNotification :: "string \<Rightarrow> doc \<Rightarrow> world \<Rightarrow> unit completion \<times> world" where
  "sendPushNotification notificationId notificationData w =
     (if field notificationData ''sent'' = JBool True
      then (Normal (), console_log (LogAlreadySent notificationId) w)
      else if \<not> truthy (field notificationData ''fcm_token'')
      then store_update (QueueRef notificationId)
             [(''sent'', Value (JBool True)),
              (''error'', Value (JStr ''No FCM token'')),
              (''sent_at'', ServerTimestamp)]
             (console_log (ErrNoToken (field notificationData ''user_id'')) w)
      else
        (case try_send notificationId notificationData w of
           (Normal u, w1) \<Rightarrow> (Normal (), w1)
         | (Throw error, w1) \<Rightarrow>
             on_send_error notificationId (field notificationData ''user_id'') error w1))"

subsection \<open>Write batches and queries\<close>

text \<open>
  A write batch of the store client: the operations queued (all of them deletions
  here), the last one first. \<^verbatim>\<open>commit()\<close> marks the batch as committed before
  it sends it, whatever the store answers, and from then on the client refuses to
  queue anything more on it (\<open>batch_sealed\<close> is the error it raises); a committed
  batch can still be committed again, which sends the same operations.
\<close>

record write_batch =
  ops :: "ref list"
  committed :: bool

definition new_batch :: write_batch where
  "new_batch = \<lparr> ops = [], committed = False \<rparr>"

definition batch_sealed :: js_error where
  "batch_sealed = Error JUndefined ''Cannot modify a WriteBatch that has been committed.''"

definition batch_delete :: "write_batch \<Rightarrow> ref \<Rightarrow> write_batch completion" where
  "batch_delete b r =
     (if committed b then Throw batch_sealed else Normal (b\<lparr>ops := r # ops b\<rparr>))"

definition apply_deletes :: "ref list \<Rightarrow> world \<Rightarrow> world" where
  "apply_deletes rs w =
     w\<lparr> queue_docs := filter (\<lambda>(k, d). QueueRef k \<notin> set rs) (queue_docs w),
        profile_docs := filter (\<lambda>(k, d). ProfileRef k \<notin> set rs) (profile_docs w),
        question_docs := filter (\<lambda>(k, d). QuestionRef k \<notin> set rs) (question_docs w),
        answer_docs := filter (\<lambda>((q, a), d). AnswerRef q a \<notin> set rs) (answer_docs w),
        other_docs := filter (\<lambda>(p, d). PathRef p \<notin> set rs) (other_docs w) \<rparr>"

text \<open>\<^verbatim>\<open>batch.commit()\<close>: atomic, all the deletions or none.\<close>

definition batch_commit :: "write_batch \<Rightarrow> world \<Rightarrow> unit completion \<times> write_batch \<times> world" where
  "batch_commit b w =
     (let (f, fs) = next_fault (write_faults w);
          w1 = w\<lparr>write_faults := fs, calls := Commit (ops b) # calls w\<rparr>;
          b1 = b\<lparr>committed := True\<rparr>
      in case f of
           Some e \<Rightarrow> (Throw e, b1, w1)
         | None \<Rightarrow> (Normal (), b1, apply_deletes (ops b) w1))"

text \<open>A query with a filter and \<^verbatim>\<open>.limit(n)\<close>.\<close>

definition run_query :: "(string \<times> doc) list \<Rightarrow> (doc \<Rightarrow> bool) \<Rightarrow> nat \<Rightarrow> world \<Rightarrow>
    (string \<times> doc) list completion \<times> world" where
  "run_query ds P n w =
     (let (f, fs) = next_fault (read_faults w);
          w1 = w\<lparr>read_faults := fs\<rparr>
      in case f of
           Some e \<Rightarrow> (Throw e, w1)
         | None \<Rightarrow> (Normal (take n (filter (\<lambda>(k, d). P d) ds)), w1))"

text \<open>An inequality filter on a timestamp matches the documents whose field is a
  timestamp below the bound.\<close>

definition time_before :: "jsval \<Rightarrow> int \<Rightarrow> bool" where
  "time_before v bound = (case v of JTime t \<Rightarrow> t < bound | _ \<Rightarrow> False)"

subsection \<open>cleanupNotificationQueue\<close>

definition old_sent :: "int \<Rightarrow> doc \<Rightarrow> bool" where
  "old_sent oneDayAgo d \<longleftrightarrow>
     field d ''sent'' = JBool True \<and> time_before (field d ''sent_at'') oneDayAgo"

text \<open>The \<^verbatim>\<open>forEach\<close>: one deletion queued and one count per document.\<close>

fun queue_deletes :: "(string \<times> doc) list \<Rightarrow> write_batch \<Rightarrow> nat \<Rightarrow> (write_batch \<times> nat) completion" where
  "queue_deletes [] batch deletedCount = Normal (batch, deletedCount)"
| "queue_deletes (kd # rest) batch deletedCount =
     (case batch_delete batch (QueueRef (fst kd)) of
        Throw e \<Rightarrow> Throw e
      | Normal b \<Rightarrow> queue_deletes rest b (deletedCount + 1))"

definition cleanupNotificationQueue :: "world \<Rightarrow> unit completion \<times> world" where
  "cleanupNotificationQueue w =
     (let oneDayAgo = date_now w - 24 * 60 * 60 * 1000 in
      case run_query (queue_docs w) (old_sent oneDayAgo) 500 w of
        (Throw e, w1) \<Rightarrow> (Throw e, w1)
      | (Normal oldNotifications, w1) \<Rightarrow>
          (case queue_deletes oldNotifications new_batch 0 of
             Throw e \<Rightarrow> (Throw e, w1)
           | Normal (batch, deletedCount) \<Rightarrow>
               if deletedCount > 0 then
                 (case batch_commit batch w1 of
                    (Throw e, b, w2) \<Rightarrow> (Throw e, w2)
                  | (Normal u, b, w2) \<Rightarrow> (Normal (), console_log (LogCleaned deletedCount) w2))
               else (Normal (), w1)))"

subsection \<open>cleanupExpiredPosts\<close>

definition MAX_BATCH_SIZE :: nat where
  "MAX_BATCH_SIZE = 500"

record reaper_state =
  batch :: write_batch
  batchOperations :: nat
  deletedCount :: nat
  totalAnswersDeleted :: nat

definition initial_state :: reaper_state where
  "initial_state = \<lparr> batch = new_batch, batchOperations = 0, deletedCount = 0,
     totalAnswersDeleted = 0 \<rparr>"

definition expired :: "int \<Rightarrow> doc \<Rightarrow> bool" where
  "expired now d = time_before (field d ''expires_at'') now"

text \<open>\<^verbatim>\<open>doc.ref.collection('answers').get()\<close>\<close>

definition answers_of :: "string \<Rightarrow> world \<Rightarrow> ref list" where
  "answers_of q w = map (\<lambda>(qa, d). AnswerRef (fst qa) (snd qa)) (filter (\<lambda>(qa, d). fst qa = q) (answer_docs w))"

definition get_answers :: "string \<Rightarrow> world \<Rightarrow> ref list completion \<times> world" where
  "get_answers q w =
     (let (f, fs) = next_fault (read_faults w);
          w1 = w\<lparr>read_faults := fs\<rparr>
      in case f of
           Some e \<Rightarrow> (Throw e, w1)
         | None \<Rightarrow> (Normal (answers_of q w), w1))"

text \<open>The commit when the batch is full, after an operation has been queued and
  counted (the state \<open>s\<close> has the counters already incremented). An error leaves the
  batch and its count as they are.\<close>

definition commit_if_full :: "reaper_state \<Rightarrow> world \<Rightarrow> unit completion \<times> reaper_state \<times> world" where
  "commit_if_full s w =
     (if batchOperations s \<ge> MAX_BATCH_SIZE then
        (case batch_commit (batch s) w of
           (Throw e, b, w1) \<Rightarrow> (Throw e, s\<lparr>batch := b\<rparr>, w1)
         | (Normal u, b, w1) \<Rightarrow>
             (Normal (), s\<lparr>batch := new_batch, batchOperations := 0\<rparr>,
              console_log (LogProgress (deletedCount s) (totalAnswersDeleted s)) w1))
      else (Normal (), s, w))"

text \<open>The inner loop, over the answers of one question.\<close>

fun delete_answers :: "ref list \<Rightarrow> reaper_state \<Rightarrow> world \<Rightarrow> unit completion \<times> reaper_state \<times> world" where
  "delete_answers [] s w = (Normal (), s, w)"
| "delete_answers (answerRef # rest) s w =
     (case batch_delete (batch s) answerRef of
        Throw e \<Rightarrow> (Throw e, s, w)
      | Normal b \<Rightarrow>
          (case commit_if_full
                  (s\<lparr>batch := b, batchOperations := batchOperations s + 1,
                     totalAnswersDeleted := totalAnswersDeleted s + 1\<rparr>) w of
             (Throw e, s1, w1) \<Rightarrow> (Throw e, s1, w1)
           | (Normal u, s1, w1) \<Rightarrow> delete_answers rest s1 w1))"

text \<open>The body of the \<^verbatim>\<open>try\<close>, for one question.\<close>

definition delete_question :: "string \<Rightarrow> reaper_state \<Rightarrow> world \<Rightarrow> unit completion \<times> reaper_state \<times> world" where
  "delete_question q s w =
     (case get_answers q w of
        (Throw e, w1) \<Rightarrow> (Throw e, s, w1)
      | (Normal answers, w1) \<Rightarrow>
          (case delete_answers answers s w1 of
             (Throw e, s2, w2) \<Rightarrow> (Throw e, s2, w2)
           | (Normal u, s2, w2) \<Rightarrow>
               (case batch_delete (batch s2) (QuestionRef q) of
                  Throw e \<Rightarrow> (Throw e, s2, w2)
                | Normal b \<Rightarrow>
                    commit_if_full
                      (s2\<lparr>batch := b, batchOperations := batchOperations s2 + 1,
                          deletedCount := deletedCount s2 + 1\<rparr>) w2)))"

text \<open>The outer loop: an error of one question is logged, and the loop goes on.\<close>

fun delete_questions :: "(string \<times> doc) list \<Rightarrow> reaper_state \<Rightarrow> world \<Rightarrow> reaper_state \<times> world" where
  "delete_questions [] s w = (s, w)"
| "delete_questions (kd # rest) s w =
     (case delete_question (fst kd) s w of
        (Throw e, s1, w1) \<Rightarrow>
          delete_questions rest s1 (console_log (ErrDeleteQuestion (fst kd) e) w1)
      | (Normal u, s1, w1) \<Rightarrow> delete_questions rest s1 w1)"

definition cleanupExpiredPosts :: "world \<Rightarrow> unit completion \<times> world" where
  "cleanupExpiredPosts w =
     (case run_query (question_docs w) (expired (date_now w)) 500 (console_log LogStart w) of
        (Throw e, w1) \<Rightarrow> (Throw e, w1)
      | (Normal expiredQuestions, w1) \<Rightarrow>
          if expiredQuestions = [] then (Normal (), console_log LogNoExpired w1)
          else
            (case delete_questions expiredQuestions initial_state
                    (console_log (LogFound (length expiredQuestions)) w1) of
               (s, w2) \<Rightarrow>
                 if batchOperations s > 0 then
                   (case batch_commit (batch s) w2 of
                      (Throw e, b, w3) \<Rightarrow> (Throw e, w3)
                    | (Normal u, b, w3) \<Rightarrow>
                        (Normal (), console_log (LogDone (deletedCount s) (totalAnswersDeleted s)) w3))
                 else if deletedCount s > 0 then
                   (Normal (), console_log (LogDone (deletedCount s) (totalAnswersDeleted s)) w2)
                 else (Normal (), w2)))"

subsection \<open>sendTestNotification\<close>


datatype payload = Text string | Json doc

record response =
  headers :: "(string \<times> string) list"
  status :: nat
  sent_body :: payload

definition cors_headers :: "(string \<times> string) list" where
  "cors_headers = [(''Access-Control-Allow-Origin'', ''*''),
     (''Access-Control-Allow-Methods'', ''GET, POST, OPTIONS''),
     (''Access-Control-Allow-Headers'', ''Content-Type'')]"

definition respond :: "nat \<Rightarrow> payload \<Rightarrow> response" where
  "respond st p = \<lparr> headers = cors_headers, status = st, sent_body = p \<rparr>"






subsection \<open>Observing a run\<close>

text \<open>The requests made between the state \<open>w\<close> and a later state \<open>w'\<close>, the last one
  first.\<close>

definition issued :: "world \<Rightarrow> world \<Rightarrow> call list" where
  "issued w w' = take (length (calls w') - length (calls w)) (calls w')"

fun sends :: "call list \<Rightarrow> message list" where
  "sends [] = []"
| "sends (Send m # cs) = m # sends cs"
| "sends (c # cs) = sends cs"

fun commits :: "call list \<Rightarrow> ref list list" where
  "commits [] = []"
| "commits (Commit rs # cs) = rs # commits cs"
| "commits (c # cs) = commits cs"

text \<open>The record \<open>k\<close> of the queue is stored with \<^verbatim>\<open>sent == true\<close>.\<close>

definition stored_sent :: "string \<Rightarrow> world \<Rightarrow> bool" where
  "stored_sent k w = (case map_of (queue_docs w) k of None \<Rightarrow> False | Some d \<Rightarrow> field d ''sent'' = JBool True)"

text \<open>The outcome the store has planned for its \<open>n\<close>-th next write (\<open>0\<close> is the next
  one), and for its next read.\<close>

definition write_fault :: "nat \<Rightarrow> world \<Rightarrow> js_error option" where
  "write_fault n w = fst (next_fault (drop n (write_faults w)))"

definition accepts_write :: "world \<Rightarrow> bool" where
  "accepts_write w = (fst (next_fault (write_faults w)) = None)"

definition accepts_read :: "world \<Rightarrow> bool" where
  "accepts_read w = (fst (next_fault (read_faults w)) = None)"

text \<open>The state once a write request \<open>c\<close> has been made, before its effect.\<close>

definition requested :: "call \<Rightarrow> world \<Rightarrow> world" where
  "requested c w = w\<lparr>write_faults := snd (next_fault (write_faults w)), calls := c # calls w\<rparr>"

text \<open>The records that the query of \<^verbatim>\<open>cleanupNotificationQueue\<close> returns.\<close>

definition matched_old :: "world \<Rightarrow> (string \<times> doc) list" where
  "matched_old w = take 500 (filter (\<lambda>(k, d). old_sent (date_now w - 24 * 60 * 60 * 1000) d) (queue_docs w))"


subsection \<open>Invariants of the reaper of posts\<close>

text \<open>The posts that the query of \<^verbatim>\<open>cleanupExpiredPosts\<close> returns, and the
  outcome the store has planned for its \<open>n\<close>-th next read.\<close>

definition matched_posts :: "world \<Rightarrow> (string \<times> doc) list" where
  "matched_posts w = take 500 (filter (\<lambda>(k, d). expired (date_now w) d) (question_docs w))"

definition read_fault :: "nat \<Rightarrow> world \<Rightarrow> js_error option" where
  "read_fault n w = fst (next_fault (drop n (read_faults w)))"

text \<open>The counter is the number of operations queued, never above the cap, and below
  it as long as the batch has not been committed.\<close>

definition tidy :: "reaper_state \<Rightarrow> bool" where
  "tidy s \<longleftrightarrow> batchOperations s = length (ops (batch s))
     \<and> length (ops (batch s)) \<le> MAX_BATCH_SIZE
     \<and> (\<not> committed (batch s) \<longrightarrow> length (ops (batch s)) < MAX_BATCH_SIZE)"

text \<open>From \<open>w\<close> to \<open>w'\<close> requests were only added, and every commit among them
  holds at most \<open>MAX_BATCH_SIZE\<close> operations.\<close>

definition capped_since :: "world \<Rightarrow> world \<Rightarrow> bool" where
  "capped_since w w' \<longleftrightarrow>
     (\<exists>X. calls w' = X @ calls w \<and> (\<forall>rs \<in> set (commits X). length rs \<le> MAX_BATCH_SIZE))"

text \<open>The questions and answers of \<open>w\<close> are those of \<open>w0\<close> without the documents
  that \<open>C\<close> refers to.\<close>

definition pruned :: "ref set \<Rightarrow> world \<Rightarrow> world \<Rightarrow> bool" where
  "pruned C w0 w \<longleftrightarrow>
     question_docs w = filter (\<lambda>(k, d). QuestionRef k \<notin> C) (question_docs w0)
     \<and> answer_docs w = filter (\<lambda>((q, a), d). AnswerRef q a \<notin> C) (answer_docs w0)"

text \<open>The batch is open and below the cap, and the store will accept every write.\<close>

definition steady :: "reaper_state \<Rightarrow> world \<Rightarrow> bool" where
  "steady s w \<longleftrightarrow> \<not> committed (batch s) \<and> batchOperations s = length (ops (batch s))
     \<and> batchOperations s < MAX_BATCH_SIZE \<and> (\<forall>f \<in> set (write_faults w). f = None)"

text \<open>A set of references that holds an answer only with its question, and a question
  only with all the answers it has in \<open>w0\<close>.\<close>

definition family_closed :: "world \<Rightarrow> ref set \<Rightarrow> bool" where
  "family_closed w0 G \<longleftrightarrow>
     (\<forall>q a. AnswerRef q a \<in> G \<longrightarrow> QuestionRef q \<in> G)
     \<and> (\<forall>q. QuestionRef q \<in> G \<longrightarrow>
           q \<in> fst ` set (question_docs w0)
           \<and> (\<forall>a d. ((q, a), d) \<in> set (answer_docs w0) \<longrightarrow> AnswerRef q a \<in> G))"

subsection \<open>Sample records and states\<close>

definition unavailable :: js_error where
  "unavailable = Error (JNum 14) ''UNAVAILABLE: The service is currently unavailable''"

definition token_gone :: js_error where
  "token_gone = Error (JStr ''messaging/registration-token-not-registered'')
     ''Requested entity was not found.''"

definition sent_note :: doc where
  "sent_note = [(''user_id'', JStr ''u1''), (''fcm_token'', JStr ''tok-1''),
     (''title'', JStr ''Hi''), (''sent'', JBool True)]"

definition tokenless_note :: doc where
  "tokenless_note = [(''user_id'', JStr ''u1''), (''title'', JStr ''Hi''), (''sent'', JBool False)]"

definition fresh_note :: doc where
  "fresh_note = [(''user_id'', JStr ''u1''), (''fcm_token'', JStr ''tok-1''),
     (''title'', JStr ''Hi''),
     (''data'', JObj [(''userId'', JStr ''intruder''), (''kind'', JStr ''exam''),
        (''timestamp'', JStr ''0''), (''notificationId'', JStr ''other'')]),
     (''sent'', JBool False)]"

text \<open>A store whose queue holds the record \<open>d\<close> under the key \<^verbatim>\<open>n1\<close>, with
  the profile of its recipient.\<close>

definition outbox_world :: "doc \<Rightarrow> world" where
  "outbox_world d = \<lparr> date_now = 1700000000000, server_time = 1700000000123,
     queue_docs = [(''n1'', d)],
     profile_docs = [(''u1'', [(''name'', JStr ''Aysel''), (''fcm_token'', JStr ''tok-1'')])],
     question_docs = [], answer_docs = [], other_docs = [],
     fcm_result = Normal ''projects/p/messages/1'',
     read_faults = [], write_faults = [], calls = [], console = [] \<rparr>"

text \<open>A queue with a record sent 25 hours ago, one sent 23 hours ago, and an old one
  never sent.\<close>

definition retention_world :: world where
  "retention_world = \<lparr> date_now = 1700000000000, server_time = 1700000000000,
     queue_docs =
       [(''old'', [(''sent'', JBool True), (''sent_at'', JTime (1700000000000 - 25 * 60 * 60 * 1000))]),
        (''recent'', [(''sent'', JBool True), (''sent_at'', JTime (1700000000000 - 23 * 60 * 60 * 1000))]),
        (''unsent'', [(''sent'', JBool False), (''created_at'', JTime 1500000000000)])],
     profile_docs = [], question_docs = [], answer_docs = [], other_docs = [],
     fcm_result = Normal ''projects/p/messages/1'',
     read_faults = [], write_faults = [], calls = [], console = [] \<rparr>"



text \<open>A thread: the question \<^verbatim>\<open>A\<close> with \<open>n\<close> answers, numbered from 0, beside the
  questions \<open>qs\<close>; \<open>fs\<close> is what the store will answer to the successive writes.\<close>

definition answers_fixture :: "string \<Rightarrow> nat \<Rightarrow> ((string \<times> string) \<times> doc) list" where
  "answers_fixture q n = map (\<lambda>i. ((q, show_nat i), [(''text'', JStr ''ok'')])) [0..<n]"

definition stale_post :: doc where
  "stale_post = [(''title'', JStr ''Q''), (''expires_at'', JTime 1600000000000)]"

definition fresh_post :: doc where
  "fresh_post = [(''title'', JStr ''Q''), (''expires_at'', JTime 1800000000000)]"

definition thread_world :: "nat \<Rightarrow> (string \<times> doc) list \<Rightarrow> js_error option list \<Rightarrow> world" where
  "thread_world n qs fs = \<lparr> date_now = 1700000000000, server_time = 1700000000123,
     queue_docs = [], profile_docs = [], question_docs = qs,
     answer_docs = answers_fixture ''A'' n, other_docs = [],
     fcm_result = Normal ''projects/p/messages/1'',
     read_faults = [], write_faults = fs, calls = [], console = [] \<rparr>"

text \<open>The references of the first 500 answers of the thread.\<close>

definition thread_refs :: "ref list" where
  "thread_refs = map (\<lambda>i. AnswerRef ''A'' (show_nat i)) [0..<500]"

text \<open>Two expired questions and one that is not, with their answers; the store
  refuses the read of the answers of the second question.\<close>

definition small_forum :: world where
  "small_forum = \<lparr> date_now = 1700000000000, server_time = 1700000000123,
     queue_docs = [], profile_docs = [],
     question_docs = [(''q1'', stale_post), (''q2'', stale_post), (''q3'', fresh_post)],
     answer_docs = [((''q1'', ''a1''), []), ((''q1'', ''a2''), []), ((''q2'', ''b1''), []),
                    ((''q3'', ''c1''), [])],
     other_docs = [],
     fcm_result = Normal ''projects/p/messages/1'',
     read_faults = [None, None, Some unavailable], write_faults = [], calls = [], console = [] \<rparr>"

text \<open>Records whose recipient id carries a slash: one that the store client resolves
  to the profile \<^verbatim>\<open>u1\<close>, one that it refuses.\<close>

definition trailing_note :: doc where
  "trailing_note = [(''user_id'', JStr ''u1/''), (''fcm_token'', JStr ''tok-1''), (''sent'', JBool False)]"

definition slash_note :: doc where
  "slash_note = [(''user_id'', JStr ''a/b''), (''fcm_token'', JStr ''tok-1''), (''sent'', JBool False)]"

section \<open>The dispatcher\<close>

lemma issued_append: "calls w' = cs @ calls w \<Longrightarrow> issued w w' = cs"
  by (simp add: issued_def)

lemma issued_same [simp]: "calls w' = calls w \<Longrightarrow> issued w w' = []"
  by (simp add: issued_def)

lemma calls_console_log [simp]: "calls (console_log l w) = calls w"
  by (simp add: console_log_def)

lemma store_update_calls:
  "calls (snd (store_update r kvs w)) = Update r kvs # calls w"
  by (cases r) (auto simp: store_update_def Let_def split: prod.splits option.splits)

text \<open>
  C1. A record whose \<^verbatim>\<open>sent\<close> field is \<^verbatim>\<open>true\<close>: the dispatcher returns at
  once. It makes no request to the store and none to the provider, and the state is
  the one before but for the line it logs.
\<close>

theorem dispatcher_skips_sent:
  assumes "field notificationData ''sent'' = JBool True"
  shows "sendPushNotification notificationId notificationData w =
           (Normal (), w\<lparr>console := LogAlreadySent notificationId # console w\<rparr>)
         \<and> issued w (snd (sendPushNotification notificationId notificationData w)) = []"
  using assms by (simp add: sendPushNotification_def console_log_def)

lemma map_of_update_in:
  "map_of (update_in ts k kvs ds) k' =
     (if k' = k then map_option (apply_fields ts kvs) (map_of ds k) else map_of ds k')"
  by (induction ds) (auto simp: update_in_def)

lemma field_update [simp]:
  "field (AList.update k v d) k' = (if k' = k then v else field d k')"
  by (simp add: field_def update_conv')

lemma no_token_fields:
  "apply_fields ts [(''sent'', Value (JBool True)), (''error'', Value (JStr m)), (''sent_at'', ServerTimestamp)] d = d'
   \<Longrightarrow> field d' ''sent'' = JBool True \<and> field d' ''error'' = JStr m \<and> field d' ''sent_at'' = JTime ts"
  by (auto simp: apply_fields_def apply_field_def)

text \<open>
  C8. A record not yet sent whose device token is absent (or falsy): the only request
  the dispatcher makes is the update of the record with \<^verbatim>\<open>sent = true\<close>,
  \<^verbatim>\<open>error = "No FCM token"\<close> and \<^verbatim>\<open>sent_at\<close> the server's timestamp; nothing is
  sent to the provider. Where the store accepts the write, the record then holds
  these three values.
\<close>

theorem dispatcher_no_token:
  assumes "field notificationData ''sent'' \<noteq> JBool True"
    and "\<not> truthy (field notificationData ''fcm_token'')"
  shows "issued w (snd (sendPushNotification notificationId notificationData w)) =
           [Update (QueueRef notificationId)
              [(''sent'', Value (JBool True)), (''error'', Value (JStr ''No FCM token'')),
               (''sent_at'', ServerTimestamp)]]
         \<and> (accepts_write w \<longrightarrow> (\<forall>d. map_of (queue_docs w) notificationId = Some d \<longrightarrow>
              (\<exists>d'. map_of (queue_docs (snd (sendPushNotification notificationId notificationData w)))
                       notificationId = Some d'
                 \<and> field d' ''sent'' = JBool True \<and> field d' ''error'' = JStr ''No FCM token''
                 \<and> field d' ''sent_at'' = JTime (server_time w))))"
proof -
  let ?kvs = "[(''sent'', Value (JBool True)), (''error'', Value (JStr ''No FCM token'')),
               (''sent_at'', ServerTimestamp)]"
  let ?w0 = "console_log (ErrNoToken (field notificationData ''user_id'')) w"
  have run: "sendPushNotification notificationId notificationData w =
      store_update (QueueRef notificationId) ?kvs ?w0"
    using assms by (simp add: sendPushNotification_def)
  have "calls (snd (store_update (QueueRef notificationId) ?kvs ?w0)) =
      [Update (QueueRef notificationId) ?kvs] @ calls w"
    by (simp add: store_update_calls)
  then have a: "issued w (snd (sendPushNotification notificationId notificationData w)) =
      [Update (QueueRef notificationId) ?kvs]"
    unfolding run by (rule issued_append)
  have b: "\<exists>d'. map_of (queue_docs (snd (sendPushNotification notificationId notificationData w)))
                       notificationId = Some d'
                 \<and> field d' ''sent'' = JBool True \<and> field d' ''error'' = JStr ''No FCM token''
                 \<and> field d' ''sent_at'' = JTime (server_time w)"
    if "accepts_write w" and "map_of (queue_docs w) notificationId = Some d" for d
    using that no_token_fields [OF refl, of "server_time w" "''No FCM token''" d]
    unfolding run
    by (cases "write_faults w")
       (simp_all add: store_update_def accepts_write_def console_log_def map_of_update_in)
  from a b show ?thesis by blast
qed

lemma sends_append [simp]: "sends (xs @ ys) = sends xs @ sends ys"
  by (induction xs rule: sends.induct) auto

lemma fcm_send_eq: "fcm_send m w = (fcm_result w, w\<lparr>calls := Send m # calls w\<rparr>)"
  by (simp add: fcm_send_def)

lemma try_send_calls:
  "\<exists>X. calls (snd (try_send nid d w)) = X @ [Send (build_message nid d w)] @ calls w \<and> sends X = []"
  by (cases "fcm_result w") (auto simp: try_send_def fcm_send_def store_update_calls)

lemma remove_token_calls:
  "\<exists>X. calls (remove_token u w) = X @ calls w \<and> sends X = []"
proof (cases "doc_path u")
  case (Throw e)
  then show ?thesis by (simp add: remove_token_def)
next
  case (Normal segs)
  let ?kvs = "[(''fcm_token'', DeleteField)]"
  obtain r w1 where su: "store_update (profile_ref segs) ?kvs w = (r, w1)"
    by (cases "store_update (profile_ref segs) ?kvs w") auto
  have "calls w1 = [Update (profile_ref segs) ?kvs] @ calls w"
    using store_update_calls [of "profile_ref segs" ?kvs w] su by simp
  then have "calls (remove_token u w) = [Update (profile_ref segs) ?kvs] @ calls w"
    using Normal su by (cases r) (simp_all add: remove_token_def)
  then show ?thesis by (intro exI [of _ "[Update (profile_ref segs) ?kvs]"]) simp
qed

lemma on_send_error_calls:
  "\<exists>X. calls (snd (on_send_error nid u e w)) = X @ calls w \<and> sends X = []"
proof -
  let ?kvs = "[(''sent'', Value (JBool True)), (''error'', Value (JStr (message e))),
              (''sent_at'', ServerTimestamp)]"
  let ?w1 = "console_log (ErrSend u e) w"
  obtain r w2 where su: "store_update (QueueRef nid) ?kvs ?w1 = (r, w2)"
    by (cases "store_update (QueueRef nid) ?kvs ?w1") auto
  have c2: "calls w2 = [Update (QueueRef nid) ?kvs] @ calls w"
    using store_update_calls [of "QueueRef nid" ?kvs ?w1] su by simp
  obtain X where X: "calls (remove_token u (console_log (LogInvalidToken u) w2)) = X @ calls w2" "sends X = []"
    using remove_token_calls [of u "console_log (LogInvalidToken u) w2"] by auto
  show ?thesis
  proof (cases r)
    case (Throw x)
    then show ?thesis using su c2 by (simp add: on_send_error_def Let_def)
  next
    case (Normal x)
    show ?thesis
    proof (cases "invalid_token_code (code e)")
      case True
      have "calls (snd (on_send_error nid u e w)) = (X @ [Update (QueueRef nid) ?kvs]) @ calls w"
        using su Normal True X c2 by (simp add: on_send_error_def Let_def)
      moreover have "sends (X @ [Update (QueueRef nid) ?kvs]) = []" using X by simp
      ultimately show ?thesis by blast
    next
      case False
      then show ?thesis using su Normal c2 by (simp add: on_send_error_def Let_def)
    qed
  qed
qed

lemma send_path_calls:
  assumes "field d ''sent'' \<noteq> JBool True" and "truthy (field d ''fcm_token'')"
  shows "\<exists>X. calls (snd (sendPushNotification nid d w)) = X @ [Send (build_message nid d w)] @ calls w
           \<and> sends X = []"
proof -
  obtain r w1 where ts: "try_send nid d w = (r, w1)"
    by (cases "try_send nid d w") auto
  obtain X where X: "calls w1 = X @ [Send (build_message nid d w)] @ calls w" "sends X = []"
    using try_send_calls [of nid d w] ts by auto
  show ?thesis
  proof (cases r)
    case (Normal u)
    then show ?thesis using assms ts X by (simp add: sendPushNotification_def)
  next
    case (Throw e)
    obtain Y where Y: "calls (snd (on_send_error nid (field d ''user_id'') e w1)) = Y @ calls w1" "sends Y = []"
      using on_send_error_calls by blast
    have "calls (snd (sendPushNotification nid d w)) = (Y @ X) @ [Send (build_message nid d w)] @ calls w"
      using assms ts Throw X Y by (simp add: sendPushNotification_def)
    moreover have "sends (Y @ X) = []" using X Y by simp
    ultimately show ?thesis by blast
  qed
qed

text \<open>
  C10. A record not yet sent, with a token: one message goes to the provider, and in
  its data map the keys \<^verbatim>\<open>notificationId\<close>, \<^verbatim>\<open>userId\<close> and \<^verbatim>\<open>timestamp\<close> hold the
  values of the system (the record's key, its \<^verbatim>\<open>user_id\<close>, the clock as a decimal
  string), whatever the record's own data map holds under these keys; every other
  key holds what the record's data map holds.
\<close>

theorem dispatcher_system_keys:
  assumes "field notificationData ''sent'' \<noteq> JBool True"
    and "truthy (field notificationData ''fcm_token'')"
  shows "sends (issued w (snd (sendPushNotification notificationId notificationData w))) =
           [build_message notificationId notificationData w]
    \<and> field (data (build_message notificationId notificationData w)) ''notificationId'' = JStr notificationId
    \<and> field (data (build_message notificationId notificationData w)) ''userId'' = field notificationData ''user_id''
    \<and> field (data (build_message notificationId notificationData w)) ''timestamp'' = JStr (show_int (date_now w))
    \<and> (\<forall>k. k \<noteq> ''notificationId'' \<and> k \<noteq> ''userId'' \<and> k \<noteq> ''timestamp'' \<longrightarrow>
          field (data (build_message notificationId notificationData w)) k =
          field (spread (field notificationData ''data'')) k)"
proof -
  obtain X where X: "calls (snd (sendPushNotification notificationId notificationData w)) =
      (X @ [Send (build_message notificationId notificationData w)]) @ calls w" "sends X = []"
    using send_path_calls [OF assms] by auto
  have "issued w (snd (sendPushNotification notificationId notificationData w)) =
      X @ [Send (build_message notificationId notificationData w)]"
    using X(1) by (rule issued_append)
  then have "sends (issued w (snd (sendPushNotification notificationId notificationData w))) =
      [build_message notificationId notificationData w]"
    using X(2) by simp
  then show ?thesis by (simp add: build_message_def)
qed

lemma snd_next_fault: "snd (next_fault fs) = tl fs"
  by (cases fs) auto

lemma accepts_write_0: "accepts_write w \<longleftrightarrow> write_fault 0 w = None"
  by (simp add: accepts_write_def write_fault_def)

lemma store_update_eq:
  "store_update r kvs w =
     (case fst (next_fault (write_faults w)) of
        Some e \<Rightarrow> (Throw e, requested (Update r kvs) w)
      | None \<Rightarrow>
          if lookup_doc r w = None
          then (Throw not_found, requested (Update r kvs) w)
          else (Normal (), write_doc r kvs (requested (Update r kvs) w)))"
  by (cases "next_fault (write_faults w)")
     (simp add: store_update_def Let_def requested_def split: option.splits)

lemma store_update_ok:
  assumes "accepts_write w" and "lookup_doc r w \<noteq> None"
  shows "store_update r kvs w = (Normal (), write_doc r kvs (requested (Update r kvs) w))"
  using assms by (auto simp: store_update_eq accepts_write_def)

lemma store_update_fault:
  assumes "fst (next_fault (write_faults w)) = Some e"
  shows "store_update r kvs w = (Throw e, requested (Update r kvs) w)"
  using assms by (simp add: store_update_eq)

lemma store_update_Throw:
  assumes "store_update r kvs w = (Throw e, w')"
  shows "w' = requested (Update r kvs) w"
  using assms by (auto simp: store_update_eq split: option.splits if_splits)

lemma store_update_Normal:
  assumes "store_update r kvs w = (Normal u, w')"
  shows "w' = write_doc r kvs (requested (Update r kvs) w)
     \<and> lookup_doc r w \<noteq> None \<and> accepts_write w"
  using assms
  by (auto simp: store_update_eq accepts_write_def split: option.splits if_splits)

lemma queue_requested [simp]: "queue_docs (requested c w) = queue_docs w"
  and profile_requested [simp]: "profile_docs (requested c w) = profile_docs w"
  and calls_requested [simp]: "calls (requested c w) = c # calls w"
  and time_requested [simp]: "server_time (requested c w) = server_time w"
  and faults_requested [simp]: "write_faults (requested c w) = tl (write_faults w)"
  by (simp_all add: requested_def snd_next_fault)

lemma queue_console [simp]: "queue_docs (console_log l w) = queue_docs w"
  and profile_console [simp]: "profile_docs (console_log l w) = profile_docs w"
  and time_console [simp]: "server_time (console_log l w) = server_time w"
  and faults_console [simp]: "write_faults (console_log l w) = write_faults w"
  and fcm_console [simp]: "fcm_result (console_log l w) = fcm_result w"
  by (simp_all add: console_log_def)

lemma accepts_write_console [simp]: "accepts_write (console_log l w) = accepts_write w"
  by (simp add: accepts_write_def)

lemma stored_sent_written:
  assumes "map_of (queue_docs w) k \<noteq> None"
    and "\<And>d. field (apply_fields (server_time w) kvs d) ''sent'' = JBool True"
  shows "stored_sent k (write_doc (QueueRef k) kvs w)"
  using assms by (auto simp: stored_sent_def map_of_update_in)

lemma sent_error_fields [simp]:
  "field (apply_fields ts [(''sent'', Value (JBool True)), (''error'', Value v), (''sent_at'', ServerTimestamp)] d) ''sent'' = JBool True"
  by (simp add: apply_fields_def apply_field_def)

lemma sent_response_fields [simp]:
  "field (apply_fields ts [(''sent'', Value (JBool True)), (''sent_at'', ServerTimestamp), (''fcm_response'', Value v)] d) ''sent'' = JBool True"
  by (simp add: apply_fields_def apply_field_def)

lemma queue_write_profile_ref [simp]:
  "queue_docs (write_doc (profile_ref segs) kvs w) = queue_docs w"
  by (simp add: profile_ref_def split: list.splits)

lemma queue_remove_token [simp]: "queue_docs (remove_token u w) = queue_docs w"
proof (cases "doc_path u")
  case (Throw e)
  then show ?thesis by (simp add: remove_token_def)
next
  case path: (Normal segs)
  obtain r w1 where su: "store_update (profile_ref segs) [(''fcm_token'', DeleteField)] w = (r, w1)"
    by (cases "store_update (profile_ref segs) [(''fcm_token'', DeleteField)] w") auto
  show ?thesis
  proof (cases r)
    case (Normal x)
    with su have "w1 = write_doc (profile_ref segs) [(''fcm_token'', DeleteField)]
                        (requested (Update (profile_ref segs) [(''fcm_token'', DeleteField)]) w)"
      using store_update_Normal by blast
    then show ?thesis using su path Normal by (simp add: remove_token_def)
  next
    case (Throw e)
    with su have "w1 = requested (Update (profile_ref segs) [(''fcm_token'', DeleteField)]) w"
      using store_update_Throw by blast
    then show ?thesis using su path Throw by (simp add: remove_token_def)
  qed
qed

lemma stored_sent_queue: "queue_docs w' = queue_docs w \<Longrightarrow> stored_sent k w' = stored_sent k w"
  by (simp add: stored_sent_def)


lemma on_send_error_Normal:
  assumes "fst (on_send_error nid u e w) = Normal x"
  shows "stored_sent nid (snd (on_send_error nid u e w))"
proof -
  let ?kvs = "[(''sent'', Value (JBool True)), (''error'', Value (JStr (message e))),
              (''sent_at'', ServerTimestamp)]"
  let ?w1 = "console_log (ErrSend u e) w"
  obtain r w2 where su: "store_update (QueueRef nid) ?kvs ?w1 = (r, w2)"
    by (cases "store_update (QueueRef nid) ?kvs ?w1") auto
  show ?thesis
  proof (cases r)
    case (Throw e')
    then show ?thesis using assms su by (simp add: on_send_error_def Let_def)
  next
    case (Normal y)
    with su have w2: "w2 = write_doc (QueueRef nid) ?kvs (requested (Update (QueueRef nid) ?kvs) ?w1)"
      and ex: "map_of (queue_docs ?w1) nid \<noteq> None"
      using store_update_Normal [of "QueueRef nid" ?kvs ?w1 y w2] by auto
    have "stored_sent nid w2"
      unfolding w2 by (rule stored_sent_written) (use ex in simp_all)
    then show ?thesis
      using su Normal
      by (auto simp: on_send_error_def Let_def stored_sent_queue [of "remove_token u w'" w' for w']
            stored_sent_queue [of "console_log l w'" w' for l w'])
  qed
qed

lemma on_send_error_ok:
  assumes "accepts_write w" and "map_of (queue_docs w) nid \<noteq> None"
  shows "fst (on_send_error nid u e w) = Normal ()"
  using assms
  by (simp add: on_send_error_def Let_def store_update_ok)

lemma try_send_Normal:
  assumes "try_send nid d w = (Normal x, w1)"
  shows "stored_sent nid w1"
proof -
  obtain resp where resp: "fcm_result w = Normal resp"
    using assms by (cases "fcm_result w") (auto simp: try_send_def fcm_send_def)
  let ?kvs = "[(''sent'', Value (JBool True)), (''sent_at'', ServerTimestamp),
               (''fcm_response'', Value (JStr resp))]"
  let ?w0 = "console_log (LogSent (field d ''user_id'') resp) (w\<lparr>calls := Send (build_message nid d w) # calls w\<rparr>)"
  have su: "store_update (QueueRef nid) ?kvs ?w0 = (Normal x, w1)"
    using assms resp by (simp add: try_send_def fcm_send_def)
  then have w1: "w1 = write_doc (QueueRef nid) ?kvs (requested (Update (QueueRef nid) ?kvs) ?w0)"
    and ex: "map_of (queue_docs ?w0) nid \<noteq> None"
    using store_update_Normal [of "QueueRef nid" ?kvs ?w0 x w1] by auto
  show ?thesis unfolding w1 by (rule stored_sent_written) (use ex in simp_all)
qed

lemma try_send_first_write:
  assumes "try_send nid d w = (Throw e, w1)" and "accepts_write w" and "map_of (queue_docs w) nid \<noteq> None"
  shows "fcm_result w = Throw e \<and> accepts_write w1 \<and> queue_docs w1 = queue_docs w"
proof (cases "fcm_result w")
  case (Throw e')
  then show ?thesis using assms by (auto simp: try_send_def fcm_send_def accepts_write_def)
next
  case (Normal resp)
  then have False
    using assms by (simp add: try_send_def fcm_send_def store_update_ok accepts_write_def)
  then show ?thesis ..
qed

text \<open>
  C4, as the code has it. A record already sent: the dispatcher returns normally and
  writes nothing. A record not yet sent: whenever the dispatcher returns normally,
  the record is stored with \<^verbatim>\<open>sent = true\<close>; and it does return normally, whatever
  the provider answers and whatever happens to a later write, when the record exists
  and the store accepts the first write of the invocation. The case left out is a
  store that refuses the write of the terminal state: that error escapes.
\<close>

theorem dispatcher_terminal_write:
  "(field notificationData ''sent'' = JBool True \<longrightarrow>
      fst (sendPushNotification notificationId notificationData w) = Normal () \<and>
      issued w (snd (sendPushNotification notificationId notificationData w)) = [])
   \<and> (field notificationData ''sent'' \<noteq> JBool True \<and>
      fst (sendPushNotification notificationId notificationData w) = Normal () \<longrightarrow>
      stored_sent notificationId (snd (sendPushNotification notificationId notificationData w)))
   \<and> (field notificationData ''sent'' \<noteq> JBool True \<and> accepts_write w \<and>
      map_of (queue_docs w) notificationId \<noteq> None \<longrightarrow>
      fst (sendPushNotification notificationId notificationData w) = Normal ())"
proof (intro conjI impI)
  assume "field notificationData ''sent'' = JBool True"
  then show "fst (sendPushNotification notificationId notificationData w) = Normal ()"
    and "issued w (snd (sendPushNotification notificationId notificationData w)) = []"
    by (simp_all add: sendPushNotification_def)
next
  assume a: "field notificationData ''sent'' \<noteq> JBool True \<and>
      fst (sendPushNotification notificationId notificationData w) = Normal ()"
  show "stored_sent notificationId (snd (sendPushNotification notificationId notificationData w))"
  proof (cases "truthy (field notificationData ''fcm_token'')")
    case False
    let ?kvs = "[(''sent'', Value (JBool True)), (''error'', Value (JStr ''No FCM token'')),
                 (''sent_at'', ServerTimestamp)]"
    let ?w0 = "console_log (ErrNoToken (field notificationData ''user_id'')) w"
    have run: "sendPushNotification notificationId notificationData w =
        store_update (QueueRef notificationId) ?kvs ?w0"
      using a False by (simp add: sendPushNotification_def)
    obtain w1 where su: "store_update (QueueRef notificationId) ?kvs ?w0 = (Normal (), w1)"
      using a run by (cases "store_update (QueueRef notificationId) ?kvs ?w0") auto
    then have w1: "w1 = write_doc (QueueRef notificationId) ?kvs
                          (requested (Update (QueueRef notificationId) ?kvs) ?w0)"
      and ex: "map_of (queue_docs ?w0) notificationId \<noteq> None"
      using store_update_Normal [of "QueueRef notificationId" ?kvs ?w0 "()" w1] by auto
    have "stored_sent notificationId w1"
      unfolding w1 by (rule stored_sent_written) (use ex in simp_all)
    then show ?thesis by (simp add: run su)
  next
    case True
    obtain r w1 where ts: "try_send notificationId notificationData w = (r, w1)"
      by (cases "try_send notificationId notificationData w") auto
    show ?thesis
    proof (cases r)
      case (Normal x)
      then show ?thesis
        using a True ts try_send_Normal [of notificationId notificationData w x w1]
        by (simp add: sendPushNotification_def)
    next
      case (Throw e)
      have run: "sendPushNotification notificationId notificationData w =
          on_send_error notificationId (field notificationData ''user_id'') e w1"
        using a True ts Throw by (simp add: sendPushNotification_def)
      show ?thesis
        unfolding run by (rule on_send_error_Normal [of _ _ _ _ "()"]) (use a run in simp)
    qed
  qed
next
  assume a: "field notificationData ''sent'' \<noteq> JBool True \<and> accepts_write w \<and>
      map_of (queue_docs w) notificationId \<noteq> None"
  show "fst (sendPushNotification notificationId notificationData w) = Normal ()"
  proof (cases "truthy (field notificationData ''fcm_token'')")
    case False
    then show ?thesis using a by (simp add: sendPushNotification_def store_update_ok)
  next
    case True
    obtain r w1 where ts: "try_send notificationId notificationData w = (r, w1)"
      by (cases "try_send notificationId notificationData w") auto
    show ?thesis
    proof (cases r)
      case (Normal x)
      then show ?thesis using a True ts by (simp add: sendPushNotification_def)
    next
      case (Throw e)
      with ts a have "accepts_write w1" "map_of (queue_docs w1) notificationId \<noteq> None"
        using try_send_first_write [of notificationId notificationData w e w1] by auto
      then show ?thesis
        using a True ts Throw on_send_error_ok [of w1 notificationId]
        by (simp add: sendPushNotification_def)
    qed
  qed
qed

lemma write_fault_requested [simp]: "write_fault n (requested c w) = write_fault (Suc n) w"
  by (simp add: write_fault_def drop_Suc)

lemma write_fault_console [simp]: "write_fault n (console_log l w) = write_fault n w"
  by (simp add: write_fault_def)

lemma write_fault_write_doc [simp]: "write_fault n (write_doc r kvs w) = write_fault n w"
  by (cases r) (simp_all add: write_fault_def)

lemma profile_write_queue [simp]: "profile_docs (write_doc (QueueRef k) kvs w) = profile_docs w"
  by simp

lemma calls_write_doc [simp]: "calls (write_doc r kvs w) = calls w"
  by (cases r) simp_all

lemma delete_field_only [simp]: "apply_fields ts [(k, DeleteField)] d = AList.delete k d"
  by (simp add: apply_fields_def apply_field_def)

lemma lookup_requested [simp]: "lookup_doc r (requested c w) = lookup_doc r w"
  and lookup_console [simp]: "lookup_doc r (console_log l w) = lookup_doc r w"
  by (cases r; simp add: requested_def console_log_def)+

lemma lookup_calls [simp]: "lookup_doc r (w\<lparr>calls := c\<rparr>) = lookup_doc r w"
  and lookup_write_faults [simp]: "lookup_doc r (w\<lparr>write_faults := fs\<rparr>) = lookup_doc r w"
  and lookup_read_faults [simp]: "lookup_doc r (w\<lparr>read_faults := fs\<rparr>) = lookup_doc r w"
  by (cases r; simp)+

lemma lookup_write_doc:
  "lookup_doc r (write_doc r kvs w) = map_option (apply_fields (server_time w) kvs) (lookup_doc r w)"
  by (cases r) (simp_all add: map_of_update_in)

lemma lookup_profile_after_queue_write [simp]:
  "lookup_doc (profile_ref segs) (write_doc (QueueRef k) kvs w) = lookup_doc (profile_ref segs) w"
  "lookup_doc (profile_ref segs) (w\<lparr>queue_docs := q\<rparr>) = lookup_doc (profile_ref segs) w"
  by (simp_all add: profile_ref_def split: list.splits)

lemma others_write_queue [simp]: "other_docs (write_doc (QueueRef k) kvs w) = other_docs w"
  and others_requested [simp]: "other_docs (requested c w) = other_docs w"
  and others_console [simp]: "other_docs (console_log l w) = other_docs w"
  by (simp_all add: requested_def console_log_def)

lemma profile_after_update_error:
  "profile_docs (snd (store_update (QueueRef k) kvs w)) = profile_docs w"
  "other_docs (snd (store_update (QueueRef k) kvs w)) = other_docs w"
  by (simp_all add: store_update_eq split: option.splits)

lemma remove_token_requests:
  assumes "doc_path u = Normal segs"
  shows "calls (remove_token u w) = Update (profile_ref segs) [(''fcm_token'', DeleteField)] # calls w"
  using assms by (simp add: remove_token_def store_update_eq split: option.splits)

lemma remove_token_removes:
  assumes "doc_path u = Normal segs" and "write_fault 0 w = None"
    and "lookup_doc (profile_ref segs) w = Some p"
  shows "lookup_doc (profile_ref segs) (remove_token u w) = Some (AList.delete ''fcm_token'' p)"
  using assms
  by (simp add: remove_token_def store_update_eq write_fault_def lookup_write_doc)

lemma remove_token_refused:
  assumes "doc_path u = Throw x"
  shows "remove_token u w = console_log (ErrRemoveToken x) w"
  using assms by (simp add: remove_token_def)

text \<open>An id without a slash is the one segment of its path.\<close>

lemma segments_plain:
  "CHR ''/'' \<notin> set s \<Longrightarrow> segments seg s = (if rev seg @ s = [] then [] else [rev seg @ s])"
  by (induction s arbitrary: seg) auto

lemma no_double_slash_plain: "CHR ''/'' \<notin> set s \<Longrightarrow> \<not> has_double_slash s"
  by (induction s rule: has_double_slash.induct) auto

lemma doc_path_plain:
  assumes "uid \<noteq> []" and "CHR ''/'' \<notin> set uid"
  shows "doc_path (JStr uid) = Normal [uid]" and "profile_ref [uid] = ProfileRef uid"
  using assms by (simp_all add: split_path_def segments_plain no_double_slash_plain profile_ref_def)

text \<open>
  C3, as the code has it. The provider call fails with the error \<open>e\<close>. When the code
  of \<open>e\<close> is neither of the two invalid-token codes, the profiles are left as they
  were and no request touches them. When it is one of them and the store has
  accepted the terminal write of the record: if the record's \<^verbatim>\<open>user_id\<close> is an
  id that the store client resolves to a document (\<open>doc_path\<close>), the deletion of
  the \<^verbatim>\<open>fcm_token\<close> of that document is requested, and the field (and nothing
  else) is gone from it when the store accepts that too; if the client refuses the
  id, no request is made about any profile. Whatever the cleanup does, once the
  terminal write is accepted the dispatcher returns normally and the record is
  stored with \<^verbatim>\<open>sent = true\<close>.
\<close>

theorem dispatcher_token_cleanup:
  assumes "field notificationData ''sent'' \<noteq> JBool True"
    and "truthy (field notificationData ''fcm_token'')"
    and "fcm_result w = Throw e"
  shows "(\<not> invalid_token_code (code e) \<longrightarrow>
            profile_docs (snd (sendPushNotification notificationId notificationData w)) = profile_docs w
          \<and> other_docs (snd (sendPushNotification notificationId notificationData w)) = other_docs w
          \<and> issued w (snd (sendPushNotification notificationId notificationData w)) =
              [Update (QueueRef notificationId)
                 [(''sent'', Value (JBool True)), (''error'', Value (JStr (message e))),
                  (''sent_at'', ServerTimestamp)],
               Send (build_message notificationId notificationData w)])
    \<and> (invalid_token_code (code e) \<and> accepts_write w \<and> map_of (queue_docs w) notificationId \<noteq> None \<longrightarrow>
          (\<forall>segs. doc_path (field notificationData ''user_id'') = Normal segs \<longrightarrow>
             issued w (snd (sendPushNotification notificationId notificationData w)) =
               [Update (profile_ref segs) [(''fcm_token'', DeleteField)],
                Update (QueueRef notificationId)
                 [(''sent'', Value (JBool True)), (''error'', Value (JStr (message e))),
                  (''sent_at'', ServerTimestamp)],
                Send (build_message notificationId notificationData w)]
           \<and> (\<forall>p. write_fault 1 w = None \<and> lookup_doc (profile_ref segs) w = Some p \<longrightarrow>
                 lookup_doc (profile_ref segs)
                   (snd (sendPushNotification notificationId notificationData w))
                   = Some (AList.delete ''fcm_token'' p)))
        \<and> (\<forall>x. doc_path (field notificationData ''user_id'') = Throw x \<longrightarrow>
             issued w (snd (sendPushNotification notificationId notificationData w)) =
               [Update (QueueRef notificationId)
                 [(''sent'', Value (JBool True)), (''error'', Value (JStr (message e))),
                  (''sent_at'', ServerTimestamp)],
                Send (build_message notificationId notificationData w)]
           \<and> profile_docs (snd (sendPushNotification notificationId notificationData w)) = profile_docs w
           \<and> other_docs (snd (sendPushNotification notificationId notificationData w)) = other_docs w))
    \<and> (accepts_write w \<and> map_of (queue_docs w) notificationId \<noteq> None \<longrightarrow>
          fst (sendPushNotification notificationId notificationData w) = Normal ()
        \<and> stored_sent notificationId (snd (sendPushNotification notificationId notificationData w)))"
proof -
  let ?m = "build_message notificationId notificationData w"
  let ?u = "field notificationData ''user_id''"
  let ?kvs = "[(''sent'', Value (JBool True)), (''error'', Value (JStr (message e))),
               (''sent_at'', ServerTimestamp)]"
  let ?w1 = "w\<lparr>calls := Send ?m # calls w\<rparr>"
  let ?w2 = "console_log (ErrSend ?u e) ?w1"
  let ?w3 = "write_doc (QueueRef notificationId) ?kvs (requested (Update (QueueRef notificationId) ?kvs) ?w2)"
  let ?w4 = "console_log (LogInvalidToken ?u) ?w3"
  have run: "sendPushNotification notificationId notificationData w =
      on_send_error notificationId ?u e ?w1"
    using assms by (simp add: sendPushNotification_def try_send_def fcm_send_def)
  have transient: "profile_docs (snd (on_send_error notificationId ?u e ?w1)) = profile_docs w
      \<and> other_docs (snd (on_send_error notificationId ?u e ?w1)) = other_docs w
      \<and> issued w (snd (on_send_error notificationId ?u e ?w1)) =
          [Update (QueueRef notificationId) ?kvs, Send ?m]"
    if "\<not> invalid_token_code (code e)"
  proof -
    have "calls (snd (on_send_error notificationId ?u e ?w1)) =
        [Update (QueueRef notificationId) ?kvs, Send ?m] @ calls w"
      using that by (simp add: on_send_error_def Let_def store_update_eq split: option.splits)
    then have "issued w (snd (on_send_error notificationId ?u e ?w1)) =
        [Update (QueueRef notificationId) ?kvs, Send ?m]"
      by (rule issued_append)
    moreover have "profile_docs (snd (on_send_error notificationId ?u e ?w1)) = profile_docs w"
      "other_docs (snd (on_send_error notificationId ?u e ?w1)) = other_docs w"
      using that by (simp_all add: on_send_error_def Let_def store_update_eq split: option.splits)
    ultimately show ?thesis by simp
  qed
  have ok: "on_send_error notificationId ?u e ?w1 =
      (Normal (), if invalid_token_code (code e) then remove_token ?u ?w4 else ?w3)"
    if "accepts_write w" and "map_of (queue_docs w) notificationId \<noteq> None"
    using that by (simp add: on_send_error_def Let_def store_update_eq accepts_write_def)
  have permanent: "issued w (snd (on_send_error notificationId ?u e ?w1)) =
         [Update (profile_ref segs) [(''fcm_token'', DeleteField)],
          Update (QueueRef notificationId) ?kvs, Send ?m]
       \<and> (\<forall>p. write_fault 1 w = None \<and> lookup_doc (profile_ref segs) w = Some p \<longrightarrow>
             lookup_doc (profile_ref segs) (snd (on_send_error notificationId ?u e ?w1))
               = Some (AList.delete ''fcm_token'' p))"
    if "invalid_token_code (code e)" and "accepts_write w"
      and "map_of (queue_docs w) notificationId \<noteq> None"
      and path: "doc_path ?u = Normal segs" for segs
  proof -
    have eq: "snd (on_send_error notificationId ?u e ?w1) = remove_token ?u ?w4"
      using ok that by simp
    have "calls (remove_token ?u ?w4) =
        [Update (profile_ref segs) [(''fcm_token'', DeleteField)],
          Update (QueueRef notificationId) ?kvs, Send ?m] @ calls w"
      by (simp add: remove_token_requests [OF path])
    then have "issued w (remove_token ?u ?w4) =
        [Update (profile_ref segs) [(''fcm_token'', DeleteField)],
          Update (QueueRef notificationId) ?kvs, Send ?m]"
      by (rule issued_append)
    moreover have "lookup_doc (profile_ref segs) (remove_token ?u ?w4)
               = Some (AList.delete ''fcm_token'' p)"
      if "write_fault 1 w = None" and "lookup_doc (profile_ref segs) w = Some p" for p
      by (rule remove_token_removes [OF path])
         (use that in \<open>simp_all add: write_fault_def drop_Suc\<close>)
    ultimately show ?thesis unfolding eq by blast
  qed
  have refused: "issued w (snd (on_send_error notificationId ?u e ?w1)) =
         [Update (QueueRef notificationId) ?kvs, Send ?m]
       \<and> profile_docs (snd (on_send_error notificationId ?u e ?w1)) = profile_docs w
       \<and> other_docs (snd (on_send_error notificationId ?u e ?w1)) = other_docs w"
    if "invalid_token_code (code e)" and "accepts_write w"
      and "map_of (queue_docs w) notificationId \<noteq> None"
      and path: "doc_path ?u = Throw x" for x
  proof -
    have eq: "snd (on_send_error notificationId ?u e ?w1) = console_log (ErrRemoveToken x) ?w4"
      using ok that remove_token_refused [OF path] by simp
    have "calls (console_log (ErrRemoveToken x) ?w4) =
        [Update (QueueRef notificationId) ?kvs, Send ?m] @ calls w"
      by simp
    then have "issued w (console_log (ErrRemoveToken x) ?w4) =
        [Update (QueueRef notificationId) ?kvs, Send ?m]"
      by (rule issued_append)
    then show ?thesis unfolding eq by simp
  qed
  have terminal: "fst (on_send_error notificationId ?u e ?w1) = Normal ()
      \<and> stored_sent notificationId (snd (on_send_error notificationId ?u e ?w1))"
    if "accepts_write w" and "map_of (queue_docs w) notificationId \<noteq> None"
  proof -
    have n: "fst (on_send_error notificationId ?u e ?w1) = Normal ()"
      using ok that by simp
    then show ?thesis using on_send_error_Normal by blast
  qed
  show ?thesis unfolding run using transient permanent refused terminal by blast
qed

lemmas dispatcher_defs = sendPushNotification_def try_send_def on_send_error_def remove_token_def
  fcm_send_def store_update_def console_log_def build_message_def invalid_token_code_def
  update_in_def apply_fields_def apply_field_def field_def js_or_def split_path_def
  profile_ref_def

theorem dispatcher_skips_sent_witness:
  "field sent_note ''sent'' = JBool True
   \<and> sendPushNotification ''n1'' sent_note (outbox_world sent_note) =
       (Normal (), (outbox_world sent_note)\<lparr>console := [LogAlreadySent ''n1'']\<rparr>)
   \<and> issued (outbox_world sent_note)
        (snd (sendPushNotification ''n1'' sent_note (outbox_world sent_note))) = []"
proof -
  have a: "field sent_note ''sent'' = JBool True"
    by (simp add: sent_note_def field_def)
  have c: "console (outbox_world sent_note) = []"
    by (simp add: outbox_world_def)
  show ?thesis
    using a dispatcher_skips_sent [OF a, of "''n1''" "outbox_world sent_note"] by (simp add: c)
qed

theorem dispatcher_no_token_witness:
  "field tokenless_note ''sent'' \<noteq> JBool True
   \<and> \<not> truthy (field tokenless_note ''fcm_token'')
   \<and> accepts_write (outbox_world tokenless_note)
   \<and> issued (outbox_world tokenless_note)
        (snd (sendPushNotification ''n1'' tokenless_note (outbox_world tokenless_note))) =
       [Update (QueueRef ''n1'')
          [(''sent'', Value (JBool True)), (''error'', Value (JStr ''No FCM token'')),
           (''sent_at'', ServerTimestamp)]]
   \<and> (\<exists>d'. map_of (queue_docs (snd (sendPushNotification ''n1'' tokenless_note
                (outbox_world tokenless_note)))) ''n1'' = Some d'
         \<and> field d' ''sent'' = JBool True \<and> field d' ''error'' = JStr ''No FCM token''
         \<and> field d' ''sent_at'' = JTime 1700000000123)"
proof -
  have a: "field tokenless_note ''sent'' \<noteq> JBool True"
    by (simp add: tokenless_note_def field_def)
  have b: "\<not> truthy (field tokenless_note ''fcm_token'')"
    by (simp add: tokenless_note_def field_def)
  have c: "accepts_write (outbox_world tokenless_note)"
    by (simp add: accepts_write_def outbox_world_def)
  have d: "map_of (queue_docs (outbox_world tokenless_note)) ''n1'' = Some tokenless_note"
    by (simp add: outbox_world_def)
  have t: "server_time (outbox_world tokenless_note) = 1700000000123"
    by (simp add: outbox_world_def)
  show ?thesis
    using a b c d dispatcher_no_token [OF a b, of "outbox_world tokenless_note" "''n1''"]
    by (simp add: t)
qed

theorem dispatcher_system_keys_witness:
  "field fresh_note ''sent'' \<noteq> JBool True
   \<and> truthy (field fresh_note ''fcm_token'')
   \<and> field (spread (field fresh_note ''data'')) ''userId'' = JStr ''intruder''
   \<and> field (spread (field fresh_note ''data'')) ''notificationId'' = JStr ''other''
   \<and> field (spread (field fresh_note ''data'')) ''timestamp'' = JStr ''0''
   \<and> sends (issued (outbox_world fresh_note)
        (snd (sendPushNotification ''n1'' fresh_note (outbox_world fresh_note)))) =
       [build_message ''n1'' fresh_note (outbox_world fresh_note)]
   \<and> field (data (build_message ''n1'' fresh_note (outbox_world fresh_note))) ''notificationId'' = JStr ''n1''
   \<and> field (data (build_message ''n1'' fresh_note (outbox_world fresh_note))) ''userId'' = JStr ''u1''
   \<and> field (data (build_message ''n1'' fresh_note (outbox_world fresh_note))) ''timestamp'' =
       JStr (show_int 1700000000000)
   \<and> field (data (build_message ''n1'' fresh_note (outbox_world fresh_note))) ''kind'' = JStr ''exam''"
proof -
  have a: "field fresh_note ''sent'' \<noteq> JBool True"
    by (simp add: fresh_note_def field_def)
  have b: "truthy (field fresh_note ''fcm_token'')"
    by (simp add: fresh_note_def field_def)
  have c: "field (spread (field fresh_note ''data'')) ''userId'' = JStr ''intruder''"
    "field (spread (field fresh_note ''data'')) ''notificationId'' = JStr ''other''"
    "field (spread (field fresh_note ''data'')) ''timestamp'' = JStr ''0''"
    "field (spread (field fresh_note ''data'')) ''kind'' = JStr ''exam''"
    "field fresh_note ''user_id'' = JStr ''u1''"
    by (simp_all add: fresh_note_def field_def)
  have t: "date_now (outbox_world fresh_note) = 1700000000000"
    by (simp add: outbox_world_def)
  show ?thesis
    using a b c dispatcher_system_keys [OF a b, of "outbox_world fresh_note" "''n1''"]
    by (simp add: t)
qed

text \<open>
  C4 as stated fails: when the store refuses the write of the terminal state, of a
  record without a token or after a failed send, the error escapes the invocation
  and the record is not stored as sent; and for a record already sent no write is
  made at all.
\<close>

theorem dispatcher_terminal_write_counterexample:
  "fst (sendPushNotification ''n1'' tokenless_note
          ((outbox_world tokenless_note)\<lparr>write_faults := [Some unavailable]\<rparr>)) = Throw unavailable
   \<and> \<not> stored_sent ''n1'' (snd (sendPushNotification ''n1'' tokenless_note
          ((outbox_world tokenless_note)\<lparr>write_faults := [Some unavailable]\<rparr>)))
   \<and> fst (sendPushNotification ''n1'' fresh_note
          ((outbox_world fresh_note)\<lparr>fcm_result := Throw token_gone,
             write_faults := [Some unavailable]\<rparr>)) = Throw unavailable
   \<and> \<not> stored_sent ''n1'' (snd (sendPushNotification ''n1'' fresh_note
          ((outbox_world fresh_note)\<lparr>fcm_result := Throw token_gone,
             write_faults := [Some unavailable]\<rparr>)))
   \<and> issued (outbox_world sent_note)
        (snd (sendPushNotification ''n1'' sent_note (outbox_world sent_note))) = []"
  by (simp add: dispatcher_defs stored_sent_def outbox_world_def tokenless_note_def
        fresh_note_def sent_note_def issued_def)

text \<open>
  C3 as stated fails: the provider reports an unregistered token, the store refuses
  the terminal write of the record, and the profile keeps its token.
\<close>

theorem dispatcher_token_cleanup_counterexample:
  "fcm_result ((outbox_world fresh_note)\<lparr>fcm_result := Throw token_gone,
       write_faults := [Some unavailable]\<rparr>) = Throw token_gone
   \<and> invalid_token_code (code token_gone)
   \<and> profile_docs (snd (sendPushNotification ''n1'' fresh_note
        ((outbox_world fresh_note)\<lparr>fcm_result := Throw token_gone,
           write_faults := [Some unavailable]\<rparr>))) =
       [(''u1'', [(''name'', JStr ''Aysel''), (''fcm_token'', JStr ''tok-1'')])]"
  by (simp add: dispatcher_defs outbox_world_def fresh_note_def token_gone_def)

theorem dispatcher_token_cleanup_witness:
  "field fresh_note ''sent'' \<noteq> JBool True
   \<and> truthy (field fresh_note ''fcm_token'')
   \<and> fcm_result ((outbox_world fresh_note)\<lparr>fcm_result := Throw token_gone,
        write_faults := [None, Some unavailable]\<rparr>) = Throw token_gone
   \<and> invalid_token_code (code token_gone)
   \<and> accepts_write ((outbox_world fresh_note)\<lparr>fcm_result := Throw token_gone,
        write_faults := [None, Some unavailable]\<rparr>)
   \<and> fst (sendPushNotification ''n1'' fresh_note ((outbox_world fresh_note)\<lparr>fcm_result := Throw token_gone,
        write_faults := [None, Some unavailable]\<rparr>)) = Normal ()
   \<and> stored_sent ''n1'' (snd (sendPushNotification ''n1'' fresh_note
        ((outbox_world fresh_note)\<lparr>fcm_result := Throw token_gone,
          write_faults := [None, Some unavailable]\<rparr>)))
   \<and> \<not> invalid_token_code (code unavailable)
   \<and> profile_docs (snd (sendPushNotification ''n1'' fresh_note
        ((outbox_world fresh_note)\<lparr>fcm_result := Throw unavailable\<rparr>))) =
       profile_docs ((outbox_world fresh_note)\<lparr>fcm_result := Throw unavailable\<rparr>)
   \<and> doc_path (field fresh_note ''user_id'') = Normal [''u1'']
   \<and> map_of (profile_docs (snd (sendPushNotification ''n1'' fresh_note
        ((outbox_world fresh_note)\<lparr>fcm_result := Throw token_gone\<rparr>)))) ''u1'' =
       Some [(''name'', JStr ''Aysel'')]
   \<and> doc_path (field trailing_note ''user_id'') = Normal [''u1'']
   \<and> issued ((outbox_world trailing_note)\<lparr>fcm_result := Throw token_gone\<rparr>)
        (snd (sendPushNotification ''n1'' trailing_note
          ((outbox_world trailing_note)\<lparr>fcm_result := Throw token_gone\<rparr>))) =
       [Update (ProfileRef ''u1'') [(''fcm_token'', DeleteField)],
        Update (QueueRef ''n1'')
          [(''sent'', Value (JBool True)), (''error'', Value (JStr (message token_gone))),
           (''sent_at'', ServerTimestamp)],
        Send (build_message ''n1'' trailing_note
          ((outbox_world trailing_note)\<lparr>fcm_result := Throw token_gone\<rparr>))]
   \<and> doc_path (field slash_note ''user_id'') = Throw (not_a_document ''a/b'')
   \<and> issued ((outbox_world slash_note)\<lparr>fcm_result := Throw token_gone\<rparr>)
        (snd (sendPushNotification ''n1'' slash_note
          ((outbox_world slash_note)\<lparr>fcm_result := Throw token_gone\<rparr>))) =
       [Update (QueueRef ''n1'')
          [(''sent'', Value (JBool True)), (''error'', Value (JStr (message token_gone))),
           (''sent_at'', ServerTimestamp)],
        Send (build_message ''n1'' slash_note
          ((outbox_world slash_note)\<lparr>fcm_result := Throw token_gone\<rparr>))]"
proof -
  let ?w1 = "(outbox_world fresh_note)\<lparr>fcm_result := Throw token_gone,
        write_faults := [None, Some unavailable]\<rparr>"
  let ?w2 = "(outbox_world fresh_note)\<lparr>fcm_result := Throw unavailable\<rparr>"
  let ?w3 = "(outbox_world fresh_note)\<lparr>fcm_result := Throw token_gone\<rparr>"
  let ?w4 = "(outbox_world trailing_note)\<lparr>fcm_result := Throw token_gone\<rparr>"
  let ?w5 = "(outbox_world slash_note)\<lparr>fcm_result := Throw token_gone\<rparr>"
  have a: "field fresh_note ''sent'' \<noteq> JBool True"
    "field trailing_note ''sent'' \<noteq> JBool True" "field slash_note ''sent'' \<noteq> JBool True"
    by (simp_all add: fresh_note_def trailing_note_def slash_note_def field_def)
  have b: "truthy (field fresh_note ''fcm_token'')"
    "truthy (field trailing_note ''fcm_token'')" "truthy (field slash_note ''fcm_token'')"
    by (simp_all add: fresh_note_def trailing_note_def slash_note_def field_def)
  have u: "doc_path (field fresh_note ''user_id'') = Normal [''u1'']"
    "doc_path (field trailing_note ''user_id'') = Normal [''u1'']"
    "doc_path (field slash_note ''user_id'') = Throw (not_a_document ''a/b'')"
    "profile_ref [''u1''] = ProfileRef ''u1''"
    by (simp_all add: fresh_note_def trailing_note_def slash_note_def field_def split_path_def
          profile_ref_def)
  have c1: "fcm_result ?w1 = Throw token_gone" and c2: "fcm_result ?w2 = Throw unavailable"
    and c3: "fcm_result ?w3 = Throw token_gone" and c4: "fcm_result ?w4 = Throw token_gone"
    and c5: "fcm_result ?w5 = Throw token_gone"
    by simp_all
  have k: "invalid_token_code (code token_gone)" "\<not> invalid_token_code (code unavailable)"
    by (simp_all add: invalid_token_code_def token_gone_def unavailable_def)
  have w: "accepts_write ?w1" "map_of (queue_docs ?w1) ''n1'' \<noteq> None"
    "accepts_write ?w3" "map_of (queue_docs ?w3) ''n1'' \<noteq> None"
    "write_fault 1 ?w3 = None"
    "lookup_doc (profile_ref [''u1'']) ?w3 = Some [(''name'', JStr ''Aysel''), (''fcm_token'', JStr ''tok-1'')]"
    "accepts_write ?w4" "map_of (queue_docs ?w4) ''n1'' \<noteq> None"
    "accepts_write ?w5" "map_of (queue_docs ?w5) ''n1'' \<noteq> None"
    by (simp_all add: accepts_write_def write_fault_def outbox_world_def profile_ref_def)
  have r1: "fst (sendPushNotification ''n1'' fresh_note ?w1) = Normal ()
      \<and> stored_sent ''n1'' (snd (sendPushNotification ''n1'' fresh_note ?w1))"
    using dispatcher_token_cleanup [OF a(1) b(1) c1, of "''n1''"] w(1,2) by blast
  have r2: "profile_docs (snd (sendPushNotification ''n1'' fresh_note ?w2)) = profile_docs ?w2"
    using dispatcher_token_cleanup [OF a(1) b(1) c2, of "''n1''"] k(2) by blast
  have "lookup_doc (profile_ref [''u1'']) (snd (sendPushNotification ''n1'' fresh_note ?w3)) =
      Some (AList.delete ''fcm_token'' [(''name'', JStr ''Aysel''), (''fcm_token'', JStr ''tok-1'')])"
    using dispatcher_token_cleanup [OF a(1) b(1) c3, of "''n1''"] k(1) w(3,4,5,6) u(1)
    by blast
  then have r3: "map_of (profile_docs (snd (sendPushNotification ''n1'' fresh_note ?w3))) ''u1'' =
      Some [(''name'', JStr ''Aysel'')]"
    unfolding u(4) by simp
  have r4: "issued ?w4 (snd (sendPushNotification ''n1'' trailing_note ?w4)) =
       [Update (profile_ref [''u1'']) [(''fcm_token'', DeleteField)],
        Update (QueueRef ''n1'')
          [(''sent'', Value (JBool True)), (''error'', Value (JStr (message token_gone))),
           (''sent_at'', ServerTimestamp)],
        Send (build_message ''n1'' trailing_note ?w4)]"
    using dispatcher_token_cleanup [OF a(2) b(2) c4, of "''n1''"] k(1) w(7,8) u(2) by blast
  have r5: "issued ?w5 (snd (sendPushNotification ''n1'' slash_note ?w5)) =
       [Update (QueueRef ''n1'')
          [(''sent'', Value (JBool True)), (''error'', Value (JStr (message token_gone))),
           (''sent_at'', ServerTimestamp)],
        Send (build_message ''n1'' slash_note ?w5)]"
    using dispatcher_token_cleanup [OF a(3) b(3) c5, of "''n1''"] k(1) w(9,10) u(3) by blast
  show ?thesis
    using a(1) b(1) c1 k w(1) r1 r2 u(1,2,3) r3 r4 [unfolded u(4)] r5 by blast
qed

theorem dispatcher_terminal_write_witness:
  "field sent_note ''sent'' = JBool True
   \<and> fst (sendPushNotification ''n1'' sent_note (outbox_world sent_note)) = Normal ()
   \<and> field fresh_note ''sent'' \<noteq> JBool True
   \<and> accepts_write (outbox_world fresh_note)
   \<and> map_of (queue_docs (outbox_world fresh_note)) ''n1'' \<noteq> None
   \<and> fst (sendPushNotification ''n1'' fresh_note (outbox_world fresh_note)) = Normal ()
   \<and> stored_sent ''n1'' (snd (sendPushNotification ''n1'' fresh_note (outbox_world fresh_note)))"
proof -
  have a: "field sent_note ''sent'' = JBool True"
    by (simp add: sent_note_def field_def)
  have b: "field fresh_note ''sent'' \<noteq> JBool True"
    by (simp add: fresh_note_def field_def)
  have w: "accepts_write (outbox_world fresh_note)"
    "map_of (queue_docs (outbox_world fresh_note)) ''n1'' \<noteq> None"
    by (simp_all add: accepts_write_def outbox_world_def)
  show ?thesis
    using a b w
      dispatcher_terminal_write [of sent_note "''n1''" "outbox_world sent_note"]
      dispatcher_terminal_write [of fresh_note "''n1''" "outbox_world fresh_note"]
    by simp
qed

section \<open>The reaper of the queue\<close>

lemma queue_deletes_fresh:
  assumes "\<not> committed b"
  shows "queue_deletes ds b n =
    Normal (b\<lparr>ops := rev (map (\<lambda>kd. QueueRef (fst kd)) ds) @ ops b\<rparr>, n + length ds)"
  using assms
  by (induction ds arbitrary: b n) (simp_all add: batch_delete_def)

lemma run_query_eq:
  "run_query ds P n w =
     (case fst (next_fault (read_faults w)) of
        Some e \<Rightarrow> (Throw e, w\<lparr>read_faults := snd (next_fault (read_faults w))\<rparr>)
      | None \<Rightarrow> (Normal (take n (filter (\<lambda>(k, d). P d) ds)),
                 w\<lparr>read_faults := snd (next_fault (read_faults w))\<rparr>))"
  by (cases "next_fault (read_faults w)") (simp add: run_query_def Let_def split: option.splits)

lemma batch_commit_eq:
  "batch_commit b w =
     (case fst (next_fault (write_faults w)) of
        Some e \<Rightarrow> (Throw e, b\<lparr>committed := True\<rparr>, requested (Commit (ops b)) w)
      | None \<Rightarrow> (Normal (), b\<lparr>committed := True\<rparr>,
                 apply_deletes (ops b) (requested (Commit (ops b)) w)))"
  by (cases "next_fault (write_faults w)")
     (simp add: batch_commit_def Let_def requested_def split: option.splits)

lemma queue_apply_deletes [simp]:
  "queue_docs (apply_deletes rs w) = filter (\<lambda>(k, d). QueueRef k \<notin> set rs) (queue_docs w)"
  and calls_apply_deletes [simp]: "calls (apply_deletes rs w) = calls w"
  by (simp_all add: apply_deletes_def)

lemma cleanup_queue_eq:
  assumes "accepts_read w"
  shows "cleanupNotificationQueue w =
     (let w1 = w\<lparr>read_faults := snd (next_fault (read_faults w))\<rparr>;
          rs = rev (map (\<lambda>kd. QueueRef (fst kd)) (matched_old w))
      in if matched_old w = [] then (Normal (), w1)
         else (case fst (next_fault (write_faults w)) of
                 Some e \<Rightarrow> (Throw e, requested (Commit rs) w1)
               | None \<Rightarrow> (Normal (), console_log (LogCleaned (length (matched_old w)))
                            (apply_deletes rs (requested (Commit rs) w1)))))"
  using assms
  by (simp add: cleanupNotificationQueue_def run_query_eq accepts_read_def Let_def
        queue_deletes_fresh new_batch_def batch_commit_eq matched_old_def
      split: option.splits)

lemma cleanup_queue_read_fault:
  assumes "\<not> accepts_read w"
  shows "queue_docs (snd (cleanupNotificationQueue w)) = queue_docs w
    \<and> calls (snd (cleanupNotificationQueue w)) = calls w"
  using assms
  by (auto simp: cleanupNotificationQueue_def run_query_eq accepts_read_def Let_def
      split: option.splits)

lemma filter_by_key:
  assumes "distinct (map fst ds)" and "set ms \<subseteq> set ds"
  shows "filter (\<lambda>(k, d). QueueRef k \<notin> set (rev (map (\<lambda>kd. QueueRef (fst kd)) ms))) ds =
         filter (\<lambda>kd. kd \<notin> set ms) ds"
proof (rule filter_cong [OF refl])
  fix kd assume kd: "kd \<in> set ds"
  obtain k d where [simp]: "kd = (k, d)" by (cases kd)
  have "k \<in> fst ` set ms \<longleftrightarrow> (k, d) \<in> set ms"
  proof
    assume "k \<in> fst ` set ms"
    then obtain d' where d': "(k, d') \<in> set ms" by auto
    with assms(2) have "(k, d') \<in> set ds" by auto
    with kd assms(1) have "d' = d" by (auto dest: eq_key_imp_eq_value)
    with d' show "(k, d) \<in> set ms" by simp
  qed force
  then show "(case kd of (k, d) \<Rightarrow> QueueRef k \<notin> set (rev (map (\<lambda>kd. QueueRef (fst kd)) ms)))
      = (kd \<notin> set ms)"
    by (auto simp: image_iff)
qed

lemma matched_old_subset: "set (matched_old w) \<subseteq> set (queue_docs w)"
  unfolding matched_old_def by (meson filter_is_subset order_trans set_take_subset)

lemma matched_old_sent:
  "kd \<in> set (matched_old w) \<Longrightarrow> old_sent (date_now w - 24 * 60 * 60 * 1000) (snd kd)"
  unfolding matched_old_def by (auto dest!: in_set_takeD)

text \<open>
  C5. A run of \<^verbatim>\<open>cleanupNotificationQueue\<close> over a queue whose keys are distinct.
  When the query is answered, the run makes one request, the commit of one batch
  that deletes the records matched (those with \<^verbatim>\<open>sent == true\<close> and
  \<^verbatim>\<open>sent_at\<close> below the clock minus 24 hours, the first 500 of them), and makes
  no request at all when none is matched; when the store accepts the commit, the
  queue afterwards is the queue before without the records matched. Whatever the
  store answers, a record that is not sent, or whose \<^verbatim>\<open>sent_at\<close> is not below
  that bound, is still in the queue afterwards.
\<close>

theorem queue_reaper_retention:
  assumes "distinct (map fst (queue_docs w))"
  shows "(accepts_read w \<longrightarrow>
            issued w (snd (cleanupNotificationQueue w)) =
              (if matched_old w = [] then []
               else [Commit (rev (map (\<lambda>kd. QueueRef (fst kd)) (matched_old w)))])
          \<and> (accepts_write w \<longrightarrow>
               fst (cleanupNotificationQueue w) = Normal () \<and>
               queue_docs (snd (cleanupNotificationQueue w)) =
                 filter (\<lambda>kd. kd \<notin> set (matched_old w)) (queue_docs w)))
    \<and> (\<forall>kd \<in> set (queue_docs w).
          \<not> old_sent (date_now w - 24 * 60 * 60 * 1000) (snd kd) \<longrightarrow>
          kd \<in> set (queue_docs (snd (cleanupNotificationQueue w))))"
proof -
  let ?rs = "rev (map (\<lambda>kd. QueueRef (fst kd)) (matched_old w))"
  let ?w1 = "w\<lparr>read_faults := snd (next_fault (read_faults w))\<rparr>"
  note fk = filter_by_key [OF assms matched_old_subset]
  have calls: "calls (snd (cleanupNotificationQueue w)) =
      (if matched_old w = [] then [] else [Commit ?rs]) @ calls w" if "accepts_read w"
    using that by (simp add: cleanup_queue_eq Let_def split: option.splits)
  have a: "issued w (snd (cleanupNotificationQueue w)) =
      (if matched_old w = [] then [] else [Commit ?rs])" if "accepts_read w"
    using calls [OF that] by (rule issued_append)
  have b: "fst (cleanupNotificationQueue w) = Normal () \<and>
      queue_docs (snd (cleanupNotificationQueue w)) =
        filter (\<lambda>kd. kd \<notin> set (matched_old w)) (queue_docs w)"
    if "accepts_read w" "accepts_write w"
    using that fk by (simp add: cleanup_queue_eq Let_def accepts_write_def)
  have sub: "set (filter (\<lambda>kd. kd \<notin> set (matched_old w)) (queue_docs w))
      \<subseteq> set (queue_docs (snd (cleanupNotificationQueue w)))"
  proof (cases "accepts_read w")
    case True
    then show ?thesis
      using fk by (auto simp: cleanup_queue_eq Let_def split: option.splits)
  next
    case False
    then show ?thesis using cleanup_queue_read_fault by auto
  qed
  have c: "kd \<in> set (queue_docs (snd (cleanupNotificationQueue w)))"
    if "kd \<in> set (queue_docs w)" "\<not> old_sent (date_now w - 24 * 60 * 60 * 1000) (snd kd)" for kd
  proof -
    have "kd \<notin> set (matched_old w)" using that(2) matched_old_sent by blast
    with that(1) sub show ?thesis by auto
  qed
  from a b c show ?thesis by blast
qed

lemmas queue_reaper_defs = cleanupNotificationQueue_def run_query_def batch_commit_def
  batch_delete_def new_batch_def apply_deletes_def old_sent_def time_before_def field_def
  console_log_def

theorem queue_reaper_retention_witness:
  "distinct (map fst (queue_docs retention_world))
   \<and> accepts_read retention_world \<and> accepts_write retention_world
   \<and> matched_old retention_world =
       [(''old'', [(''sent'', JBool True), (''sent_at'', JTime (1700000000000 - 25 * 60 * 60 * 1000))])]
   \<and> issued retention_world (snd (cleanupNotificationQueue retention_world)) =
       [Commit [QueueRef ''old'']]
   \<and> map fst (queue_docs (snd (cleanupNotificationQueue retention_world))) = [''recent'', ''unsent'']"
proof -
  have d: "distinct (map fst (queue_docs retention_world))"
    by (simp add: retention_world_def)
  have r: "accepts_read retention_world" "accepts_write retention_world"
    by (simp_all add: accepts_read_def accepts_write_def retention_world_def)
  have m: "matched_old retention_world =
       [(''old'', [(''sent'', JBool True), (''sent_at'', JTime (1700000000000 - 25 * 60 * 60 * 1000))])]"
    by (simp add: matched_old_def retention_world_def old_sent_def time_before_def field_def)
  have q: "queue_docs retention_world =
       [(''old'', [(''sent'', JBool True), (''sent_at'', JTime (1700000000000 - 25 * 60 * 60 * 1000))]),
        (''recent'', [(''sent'', JBool True), (''sent_at'', JTime (1700000000000 - 23 * 60 * 60 * 1000))]),
        (''unsent'', [(''sent'', JBool False), (''created_at'', JTime 1500000000000)])]"
    by (simp add: retention_world_def)
  show ?thesis
    using d r queue_reaper_retention [OF d] by (simp add: m q)
qed

section \<open>The HTTP handler\<close>






lemma field_Nil [simp]: "field [] k = JUndefined"
  by (simp add: field_def)












lemma respond_parts [simp]:
  "status (respond n b) = n" "sent_body (respond n b) = b" "headers (respond n b) = cors_headers"
  by (simp_all add: respond_def)






section \<open>The reaper of posts\<close>

lemma commits_append [simp]: "commits (xs @ ys) = commits xs @ commits ys"
  by (induction xs rule: commits.induct) auto

lemma capped_refl: "calls w' = calls w \<Longrightarrow> capped_since w w'"
  by (simp add: capped_since_def)

lemma capped_trans: "capped_since w w1 \<Longrightarrow> capped_since w1 w2 \<Longrightarrow> capped_since w w2"
  unfolding capped_since_def by (elim exE conjE, rule_tac x = "Xa @ X" in exI) auto

lemma capped_console: "capped_since w w' \<Longrightarrow> capped_since w (console_log l w')"
  by (simp add: capped_since_def)

lemma capped_commit:
  assumes "length (ops b) \<le> MAX_BATCH_SIZE"
  shows "capped_since w (snd (snd (batch_commit b w)))"
  unfolding capped_since_def
  by (rule exI [of _ "[Commit (ops b)]"])
     (use assms in \<open>simp add: batch_commit_eq split: option.splits\<close>)

lemma batch_commit_seals: "committed (fst (snd (batch_commit b w)))"
  and batch_commit_ops: "ops (fst (snd (batch_commit b w))) = ops b"
  by (simp_all add: batch_commit_eq split: option.splits)

lemma commit_if_full_tidy:
  assumes "batchOperations s = length (ops (batch s))" and "length (ops (batch s)) \<le> MAX_BATCH_SIZE"
    and "commit_if_full s w = (r, s', w')"
  shows "tidy s' \<and> capped_since w w'"
proof (cases "batchOperations s \<ge> MAX_BATCH_SIZE")
  case False
  then show ?thesis using assms by (auto simp: commit_if_full_def tidy_def capped_refl)
next
  case True
  obtain c b w1 where bc: "batch_commit (batch s) w = (c, b, w1)"
    by (cases "batch_commit (batch s) w") auto
  have cap: "capped_since w w1"
    using capped_commit [OF assms(2), of w] bc by simp
  have b: "committed b" "ops b = ops (batch s)"
    using batch_commit_seals [of "batch s" w] batch_commit_ops [of "batch s" w] bc by simp_all
  show ?thesis
  proof (cases c)
    case (Normal u)
    then have "s' = s\<lparr>batch := new_batch, batchOperations := 0\<rparr>"
      and "w' = console_log (LogProgress (deletedCount s) (totalAnswersDeleted s)) w1"
      using assms(3) True bc by (simp_all add: commit_if_full_def)
    then show ?thesis
      using cap by (simp add: tidy_def new_batch_def MAX_BATCH_SIZE_def capped_console)
  next
    case (Throw e)
    then have "s' = s\<lparr>batch := b\<rparr>" and "w' = w1"
      using assms(3) True bc by (simp_all add: commit_if_full_def)
    then show ?thesis
      using cap b assms(1,2) by (simp add: tidy_def)
  qed
qed

lemma delete_answers_tidy:
  assumes "tidy s" and "delete_answers as s w = (r, s', w')"
  shows "tidy s' \<and> capped_since w w'"
  using assms
proof (induction as arbitrary: s w)
  case Nil
  then show ?case by (simp add: capped_refl)
next
  case (Cons a as)
  show ?case
  proof (cases "committed (batch s)")
    case True
    then show ?thesis using Cons.prems by (simp add: batch_delete_def capped_refl)
  next
    case False
    let ?s1 = "s\<lparr>batch := (batch s)\<lparr>ops := a # ops (batch s)\<rparr>,
                   batchOperations := batchOperations s + 1,
                   totalAnswersDeleted := totalAnswersDeleted s + 1\<rparr>"
    obtain c s2 w2 where cf: "commit_if_full ?s1 w = (c, s2, w2)"
      by (cases "commit_if_full ?s1 w") auto
    have pre: "batchOperations ?s1 = length (ops (batch ?s1))"
      "length (ops (batch ?s1)) \<le> MAX_BATCH_SIZE"
      using Cons.prems(1) False by (simp_all add: tidy_def)
    have step: "tidy s2 \<and> capped_since w w2"
      using commit_if_full_tidy [OF pre cf] .
    show ?thesis
    proof (cases c)
      case (Throw e)
      then show ?thesis using Cons.prems(2) False cf step by (simp add: batch_delete_def)
    next
      case (Normal u)
      then have "delete_answers as s2 w2 = (r, s', w')"
        using Cons.prems(2) False cf by (simp add: batch_delete_def)
      with Cons.IH step have "tidy s' \<and> capped_since w2 w'" by blast
      with step show ?thesis using capped_trans by blast
    qed
  qed
qed

lemma get_answers_eq:
  "get_answers q w =
     (case fst (next_fault (read_faults w)) of
        Some e \<Rightarrow> (Throw e, w\<lparr>read_faults := snd (next_fault (read_faults w))\<rparr>)
      | None \<Rightarrow> (Normal (answers_of q w), w\<lparr>read_faults := snd (next_fault (read_faults w))\<rparr>))"
  by (cases "next_fault (read_faults w)") (simp add: get_answers_def Let_def split: option.splits)

lemma get_answers_calls: "calls (snd (get_answers q w)) = calls w"
  by (simp add: get_answers_eq split: option.splits)

lemma delete_question_tidy:
  assumes "tidy s" and "delete_question q s w = (r, s', w')"
  shows "tidy s' \<and> capped_since w w'"
proof -
  obtain c w1 where ga: "get_answers q w = (c, w1)"
    by (cases "get_answers q w") auto
  have c1: "capped_since w w1"
    using get_answers_calls [of q w] ga by (simp add: capped_refl)
  show ?thesis
  proof (cases c)
    case (Throw e)
    then show ?thesis using assms ga c1 by (simp add: delete_question_def)
  next
    case (Normal answers)
    obtain c2 s2 w2 where da: "delete_answers answers s w1 = (c2, s2, w2)"
      by (cases "delete_answers answers s w1") auto
    have t2: "tidy s2 \<and> capped_since w1 w2"
      using delete_answers_tidy [OF assms(1) da] .
    then have c2w: "capped_since w w2" using c1 capped_trans by blast
    show ?thesis
    proof (cases c2)
      case (Throw e)
      then show ?thesis using assms(2) ga Normal da t2 c2w by (simp add: delete_question_def)
    next
      case inner: (Normal u)
      show ?thesis
      proof (cases "committed (batch s2)")
        case True
        then show ?thesis
          using assms(2) ga Normal da inner t2 c2w by (simp add: delete_question_def batch_delete_def)
      next
        case False
        let ?s3 = "s2\<lparr>batch := (batch s2)\<lparr>ops := QuestionRef q # ops (batch s2)\<rparr>,
                       batchOperations := batchOperations s2 + 1,
                       deletedCount := deletedCount s2 + 1\<rparr>"
        have cf: "commit_if_full ?s3 w2 = (r, s', w')"
          using assms(2) ga Normal da inner False by (simp add: delete_question_def batch_delete_def)
        have pre: "batchOperations ?s3 = length (ops (batch ?s3))"
          "length (ops (batch ?s3)) \<le> MAX_BATCH_SIZE"
          using t2 False by (simp_all add: tidy_def)
        have "tidy s' \<and> capped_since w2 w'"
          using commit_if_full_tidy [OF pre cf] .
        then show ?thesis using c2w capped_trans by blast
      qed
    qed
  qed
qed

lemma delete_questions_tidy:
  assumes "tidy s" and "delete_questions qs s w = (s', w')"
  shows "tidy s' \<and> capped_since w w'"
  using assms
proof (induction qs arbitrary: s w)
  case Nil
  then show ?case by (simp add: capped_refl)
next
  case (Cons kd qs)
  obtain c s1 w1 where dq: "delete_question (fst kd) s w = (c, s1, w1)"
    by (cases "delete_question (fst kd) s w") auto
  have t1: "tidy s1 \<and> capped_since w w1"
    using delete_question_tidy [OF Cons.prems(1) dq] .
  show ?case
  proof (cases c)
    case (Normal u)
    then have "delete_questions qs s1 w1 = (s', w')"
      using Cons.prems(2) dq by simp
    with Cons.IH t1 have "tidy s' \<and> capped_since w1 w'" by blast
    with t1 show ?thesis using capped_trans by blast
  next
    case (Throw e)
    let ?w1 = "console_log (ErrDeleteQuestion (fst kd) e) w1"
    have "delete_questions qs s1 ?w1 = (s', w')"
      using Cons.prems(2) dq Throw by simp
    with Cons.IH t1 have "tidy s' \<and> capped_since ?w1 w'" by blast
    moreover have "capped_since w ?w1" using t1 capped_console by blast
    ultimately show ?thesis using capped_trans by blast
  qed
qed

lemma run_query_calls: "calls (snd (run_query ds P n w)) = calls w"
  by (simp add: run_query_eq split: option.splits)

lemma cleanup_posts_capped: "capped_since w (snd (cleanupExpiredPosts w))"
proof -
  let ?w0 = "console_log LogStart w"
  obtain c w1 where rq: "run_query (question_docs w) (expired (date_now w)) 500 ?w0 = (c, w1)"
    by (cases "run_query (question_docs w) (expired (date_now w)) 500 ?w0") auto
  have c1: "capped_since w w1"
    using run_query_calls [of "question_docs w" "expired (date_now w)" 500 ?w0] rq
    by (simp add: capped_refl)
  show ?thesis
  proof (cases c)
    case (Throw e)
    then show ?thesis using rq c1 by (simp add: cleanupExpiredPosts_def)
  next
    case (Normal qs)
    show ?thesis
    proof (cases "qs = []")
      case True
      then show ?thesis using rq Normal c1 by (simp add: cleanupExpiredPosts_def capped_console)
    next
      case False
      let ?w2 = "console_log (LogFound (length qs)) w1"
      obtain s w3 where dq: "delete_questions qs initial_state ?w2 = (s, w3)"
        by (cases "delete_questions qs initial_state ?w2") auto
      have "tidy initial_state"
        by (simp add: tidy_def initial_state_def new_batch_def MAX_BATCH_SIZE_def)
      then have t: "tidy s \<and> capped_since ?w2 w3"
        using delete_questions_tidy dq by blast
      have c3: "capped_since w w3"
        using c1 t capped_console capped_trans by blast
      show ?thesis
      proof (cases "batchOperations s > 0")
        case zero: False
        then show ?thesis
          using rq Normal False dq c3 by (simp add: cleanupExpiredPosts_def capped_console)
      next
        case True
        obtain c4 b w4 where bc: "batch_commit (batch s) w3 = (c4, b, w4)"
          by (cases "batch_commit (batch s) w3") auto
        have "capped_since w3 w4"
          using capped_commit [of "batch s" w3] t bc by (simp add: tidy_def)
        then have "capped_since w w4" using c3 capped_trans by blast
        then show ?thesis
          using rq Normal False dq True bc
          by (cases c4) (simp_all add: cleanupExpiredPosts_def capped_console)
      qed
    qed
  qed
qed

text \<open>
  C2. In every run of \<^verbatim>\<open>cleanupExpiredPosts\<close>, whatever the store answers to its
  reads and commits, every commit the run requests holds at most 500 operations:
  the count is tested after each operation queued, and a batch whose commit was
  refused takes no further operation.
\<close>

theorem content_reaper_batch_cap:
  "\<forall>rs \<in> set (commits (issued w (snd (cleanupExpiredPosts w)))). length rs \<le> MAX_BATCH_SIZE"
proof -
  obtain X where X: "calls (snd (cleanupExpiredPosts w)) = X @ calls w"
    "\<forall>rs \<in> set (commits X). length rs \<le> MAX_BATCH_SIZE"
    using cleanup_posts_capped [of w] unfolding capped_since_def by blast
  have "issued w (snd (cleanupExpiredPosts w)) = X"
    using X(1) by (rule issued_append)
  then show ?thesis using X(2) by simp
qed

lemma reads_requested [simp]: "read_faults (requested c w) = read_faults w"
  and reads_console [simp]: "read_faults (console_log l w) = read_faults w"
  and reads_apply_deletes [simp]: "read_faults (apply_deletes rs w) = read_faults w"
  by (simp_all add: requested_def console_log_def apply_deletes_def)

lemma no_fault_next: "\<forall>f \<in> set fs. f = None \<Longrightarrow> fst (next_fault fs) = None"
  by (cases fs) auto

lemma no_fault_tl: "\<forall>f \<in> set fs. f = None \<Longrightarrow> \<forall>f \<in> set (tl fs). f = None"
  by (cases fs) auto

lemma batch_commit_accepted:
  assumes "\<forall>f \<in> set (write_faults w). f = None"
  shows "batch_commit b w =
    (Normal (), b\<lparr>committed := True\<rparr>, apply_deletes (ops b) (requested (Commit (ops b)) w))"
  using no_fault_next [OF assms] by (simp add: batch_commit_eq)

lemma question_requested [simp]: "question_docs (requested c w) = question_docs w"
  and answer_requested [simp]: "answer_docs (requested c w) = answer_docs w"
  by (simp_all add: requested_def)

lemma question_console [simp]: "question_docs (console_log l w) = question_docs w"
  and answer_console [simp]: "answer_docs (console_log l w) = answer_docs w"
  by (simp_all add: console_log_def)

lemma faults_apply_deletes [simp]: "write_faults (apply_deletes rs w) = write_faults w"
  by (simp add: apply_deletes_def)

lemma pruned_console [simp]: "pruned C w0 (console_log l w) = pruned C w0 w"
  by (simp add: pruned_def)

lemma steady_console [simp]: "steady s (console_log l w) = steady s w"
  by (simp add: steady_def)

lemma pruned_commit:
  assumes "pruned C w0 w"
  shows "pruned (C \<union> set rs) w0 (apply_deletes rs (requested c w))"
proof -
  have q: "filter (\<lambda>(k, d). QuestionRef k \<notin> set rs)
             (filter (\<lambda>(k, d). QuestionRef k \<notin> C) (question_docs w0))
        = filter (\<lambda>(k, d). QuestionRef k \<notin> C \<union> set rs) (question_docs w0)"
    by (auto intro: filter_cong)
  have a: "filter (\<lambda>((q, a), d). AnswerRef q a \<notin> set rs)
             (filter (\<lambda>((q, a), d). AnswerRef q a \<notin> C) (answer_docs w0))
        = filter (\<lambda>((q, a), d). AnswerRef q a \<notin> C \<union> set rs) (answer_docs w0)"
    by (auto intro: filter_cong)
  show ?thesis
    using assms q a by (simp add: pruned_def apply_deletes_def)
qed

lemma commit_if_full_steady:
  assumes "\<not> committed (batch s)" and "batchOperations s = length (ops (batch s))"
    and "batchOperations s \<le> MAX_BATCH_SIZE"
    and "\<forall>f \<in> set (write_faults w). f = None"
    and "pruned C w0 w"
  shows "\<exists>s' w' C'. commit_if_full s w = (Normal (), s', w') \<and> steady s' w' \<and> pruned C' w0 w'
           \<and> C' \<union> set (ops (batch s')) = C \<union> set (ops (batch s))
           \<and> read_faults w' = read_faults w"
proof (cases "batchOperations s \<ge> MAX_BATCH_SIZE")
  case False
  then show ?thesis
    using assms by (auto simp: commit_if_full_def steady_def)
next
  case True
  let ?w1 = "apply_deletes (ops (batch s)) (requested (Commit (ops (batch s))) w)"
  let ?w' = "console_log (LogProgress (deletedCount s) (totalAnswersDeleted s)) ?w1"
  let ?s' = "s\<lparr>batch := new_batch, batchOperations := 0\<rparr>"
  have run: "commit_if_full s w = (Normal (), ?s', ?w')"
    using True batch_commit_accepted [OF assms(4)] by (simp add: commit_if_full_def)
  have "steady ?s' ?w'"
    using no_fault_tl [OF assms(4)]
    by (simp add: steady_def new_batch_def MAX_BATCH_SIZE_def)
  moreover have "pruned (C \<union> set (ops (batch s))) w0 ?w'"
    using pruned_commit [OF assms(5)] by simp
  moreover have "(C \<union> set (ops (batch s))) \<union> set (ops (batch ?s')) = C \<union> set (ops (batch s))"
    by (simp add: new_batch_def)
  moreover have "read_faults ?w' = read_faults w" by simp
  ultimately show ?thesis using run by blast
qed

lemma delete_answers_steady:
  assumes "steady s w" and "pruned C w0 w"
  shows "\<exists>s' w' C'. delete_answers as s w = (Normal (), s', w') \<and> steady s' w' \<and> pruned C' w0 w'
           \<and> C' \<union> set (ops (batch s')) = C \<union> set (ops (batch s)) \<union> set as
           \<and> read_faults w' = read_faults w"
  using assms
proof (induction as arbitrary: s w C)
  case Nil
  then show ?case by auto
next
  case (Cons a as)
  let ?s1 = "s\<lparr>batch := (batch s)\<lparr>ops := a # ops (batch s)\<rparr>,
                 batchOperations := batchOperations s + 1,
                 totalAnswersDeleted := totalAnswersDeleted s + 1\<rparr>"
  have pre: "\<not> committed (batch ?s1)" "batchOperations ?s1 = length (ops (batch ?s1))"
    "batchOperations ?s1 \<le> MAX_BATCH_SIZE" "\<forall>f \<in> set (write_faults w). f = None"
    using Cons.prems(1) by (simp_all add: steady_def)
  obtain s2 w2 C2 where step: "commit_if_full ?s1 w = (Normal (), s2, w2)" "steady s2 w2"
    "pruned C2 w0 w2" "C2 \<union> set (ops (batch s2)) = C \<union> set (ops (batch ?s1))"
    "read_faults w2 = read_faults w"
    using commit_if_full_steady [OF pre Cons.prems(2)] by blast
  obtain s' w' C' where rest: "delete_answers as s2 w2 = (Normal (), s', w')" "steady s' w'"
    "pruned C' w0 w'" "C' \<union> set (ops (batch s')) = C2 \<union> set (ops (batch s2)) \<union> set as"
    "read_faults w' = read_faults w2"
    using Cons.IH [OF step(2,3)] by blast
  have "delete_answers (a # as) s w = (Normal (), s', w')"
    using Cons.prems(1) step(1) rest(1) by (simp add: batch_delete_def steady_def)
  moreover have "C' \<union> set (ops (batch s')) = C \<union> set (ops (batch s)) \<union> set (a # as)"
    using rest(4) step(4) by auto
  ultimately show ?case using rest(2,3,5) step(5) by auto
qed

lemma delete_question_steady:
  assumes "steady s w" and "pruned C w0 w"
  shows "\<exists>r s' w' C'. delete_question q s w = (r, s', w') \<and> steady s' w' \<and> pruned C' w0 w'
           \<and> C' \<union> set (ops (batch s')) =
               (if read_fault 0 w = None
                then C \<union> set (ops (batch s)) \<union> set (answers_of q w) \<union> {QuestionRef q}
                else C \<union> set (ops (batch s)))
           \<and> read_faults w' = tl (read_faults w)"
proof (cases "fst (next_fault (read_faults w))")
  case (Some e)
  let ?w1 = "w\<lparr>read_faults := snd (next_fault (read_faults w))\<rparr>"
  have run: "delete_question q s w = (Throw e, s, ?w1)"
    using Some by (simp add: delete_question_def get_answers_eq)
  have inv: "steady s ?w1" "pruned C w0 ?w1"
    using assms by (simp_all add: steady_def pruned_def)
  have rd: "read_faults ?w1 = tl (read_faults w)" "read_fault 0 w \<noteq> None"
    using Some by (simp_all add: read_fault_def snd_next_fault)
  show ?thesis
    by (rule exI [of _ "Throw e"], rule exI [of _ s], rule exI [of _ ?w1], rule exI [of _ C])
       (simp only: run inv rd if_False simp_thms)
next
  case None
  let ?w1 = "w\<lparr>read_faults := snd (next_fault (read_faults w))\<rparr>"
  have ga: "get_answers q w = (Normal (answers_of q w), ?w1)"
    using None by (simp add: get_answers_eq)
  have st1: "steady s ?w1" and pr1: "pruned C w0 ?w1"
    using assms by (simp_all add: steady_def pruned_def)
  obtain s2 w2 C2 where da: "delete_answers (answers_of q w) s ?w1 = (Normal (), s2, w2)"
    "steady s2 w2" "pruned C2 w0 w2"
    "C2 \<union> set (ops (batch s2)) = C \<union> set (ops (batch s)) \<union> set (answers_of q w)"
    "read_faults w2 = read_faults ?w1"
    using delete_answers_steady [OF st1 pr1] by blast
  let ?s3 = "s2\<lparr>batch := (batch s2)\<lparr>ops := QuestionRef q # ops (batch s2)\<rparr>,
                 batchOperations := batchOperations s2 + 1,
                 deletedCount := deletedCount s2 + 1\<rparr>"
  have pre: "\<not> committed (batch ?s3)" "batchOperations ?s3 = length (ops (batch ?s3))"
    "batchOperations ?s3 \<le> MAX_BATCH_SIZE" "\<forall>f \<in> set (write_faults w2). f = None"
    using da(2) by (simp_all add: steady_def)
  obtain s' w' C' where cf: "commit_if_full ?s3 w2 = (Normal (), s', w')" "steady s' w'"
    "pruned C' w0 w'" "C' \<union> set (ops (batch s')) = C2 \<union> set (ops (batch ?s3))"
    "read_faults w' = read_faults w2"
    using commit_if_full_steady [OF pre da(3)] by blast
  have run: "delete_question q s w = (Normal (), s', w')"
    using ga da(1,2) cf(1) by (simp add: delete_question_def batch_delete_def steady_def)
  have grown: "C' \<union> set (ops (batch s')) =
      C \<union> set (ops (batch s)) \<union> set (answers_of q w) \<union> {QuestionRef q}"
    using cf(4) da(4) by auto
  have rd: "read_faults w' = tl (read_faults w)" "read_fault 0 w = None"
    using cf(5) da(5) None by (simp_all add: read_fault_def snd_next_fault)
  show ?thesis
    by (rule exI [of _ "Normal ()"], rule exI [of _ s'], rule exI [of _ w'], rule exI [of _ C'])
       (simp only: run cf(2,3) grown rd if_True simp_thms)
qed

lemma family_closed_step:
  assumes "family_closed w0 G" and "pruned C w0 w" and "C \<subseteq> G"
    and "q \<in> fst ` set (question_docs w0)"
  shows "family_closed w0 (G \<union> set (answers_of q w) \<union> {QuestionRef q})"
proof -
  have ans: "r \<in> set (answers_of q w) \<Longrightarrow> \<exists>a. r = AnswerRef q a" for r
    by (auto simp: answers_of_def)
  have all: "AnswerRef q a \<in> G \<union> set (answers_of q w)" if "((q, a), d) \<in> set (answer_docs w0)" for a d
  proof (cases "AnswerRef q a \<in> C")
    case True
    then show ?thesis using assms(3) by auto
  next
    case False
    then have "((q, a), d) \<in> set (answer_docs w)"
      using that assms(2) by (simp add: pruned_def)
    then have "AnswerRef q a \<in> set (answers_of q w)"
      by (force simp: answers_of_def)
    then show ?thesis by simp
  qed
  show ?thesis
    unfolding family_closed_def
  proof (intro conjI allI impI)
    fix q' a assume "AnswerRef q' a \<in> G \<union> set (answers_of q w) \<union> {QuestionRef q}"
    then show "QuestionRef q' \<in> G \<union> set (answers_of q w) \<union> {QuestionRef q}"
      using assms(1) ans by (auto simp: family_closed_def)
  next
    fix q' assume "QuestionRef q' \<in> G \<union> set (answers_of q w) \<union> {QuestionRef q}"
    then consider "QuestionRef q' \<in> G" | "q' = q" using ans by auto
    then show "q' \<in> fst ` set (question_docs w0)"
      using assms(1,4) by cases (auto simp: family_closed_def)
  next
    fix q' a d
    assume in_new: "QuestionRef q' \<in> G \<union> set (answers_of q w) \<union> {QuestionRef q}"
      and ad: "((q', a), d) \<in> set (answer_docs w0)"
    from in_new consider "QuestionRef q' \<in> G" | "q' = q" using ans by auto
    then show "AnswerRef q' a \<in> G \<union> set (answers_of q w) \<union> {QuestionRef q}"
    proof cases
      case 1
      then have "AnswerRef q' a \<in> G"
        using assms(1) ad unfolding family_closed_def by blast
      then show ?thesis by simp
    next
      case 2
      then show ?thesis using all ad by auto
    qed
  qed
qed

lemma read_fault_tl: "read_faults w1 = tl (read_faults w) \<Longrightarrow> read_fault i w1 = read_fault (Suc i) w"
  by (simp add: read_fault_def drop_Suc)

lemma read_fault_console [simp]: "read_fault i (console_log l w) = read_fault i w"
  by (simp add: read_fault_def)

lemma delete_questions_steady:
  assumes "steady s w" and "pruned C w0 w" and "family_closed w0 (C \<union> set (ops (batch s)))"
    and "fst ` set qs \<subseteq> fst ` set (question_docs w0)"
  shows "\<exists>s' w' C'. delete_questions qs s w = (s', w') \<and> steady s' w' \<and> pruned C' w0 w'
           \<and> family_closed w0 (C' \<union> set (ops (batch s')))
           \<and> C \<union> set (ops (batch s)) \<subseteq> C' \<union> set (ops (batch s'))
           \<and> (\<forall>i < length qs. read_fault i w = None \<longrightarrow>
                 QuestionRef (fst (qs ! i)) \<in> C' \<union> set (ops (batch s')))"
  using assms
proof (induction qs arbitrary: s w C)
  case Nil
  then show ?case by auto
next
  case (Cons kd qs)
  obtain r s1 w1 C1 where dq: "delete_question (fst kd) s w = (r, s1, w1)" "steady s1 w1"
    "pruned C1 w0 w1"
    "C1 \<union> set (ops (batch s1)) =
       (if read_fault 0 w = None
        then C \<union> set (ops (batch s)) \<union> set (answers_of (fst kd) w) \<union> {QuestionRef (fst kd)}
        else C \<union> set (ops (batch s)))"
    "read_faults w1 = tl (read_faults w)"
    using delete_question_steady [OF Cons.prems(1,2)] by blast
  have key: "fst kd \<in> fst ` set (question_docs w0)" and sub: "fst ` set qs \<subseteq> fst ` set (question_docs w0)"
    using Cons.prems(4) by auto
  have "family_closed w0 (C \<union> set (ops (batch s)) \<union> set (answers_of (fst kd) w) \<union> {QuestionRef (fst kd)})"
    by (rule family_closed_step [OF Cons.prems(3) Cons.prems(2) _ key]) simp
  with dq(4) Cons.prems(3) have fc: "family_closed w0 (C1 \<union> set (ops (batch s1)))"
    by (simp split: if_splits)
  have mono: "C \<union> set (ops (batch s)) \<subseteq> C1 \<union> set (ops (batch s1))"
    using dq(4) by (auto split: if_splits)
  have head: "read_fault 0 w = None \<Longrightarrow> QuestionRef (fst kd) \<in> C1 \<union> set (ops (batch s1))"
    using dq(4) by simp
  define w1' where "w1' = (case r of Normal u \<Rightarrow> w1 | Throw e \<Rightarrow> console_log (ErrDeleteQuestion (fst kd) e) w1)"
  have run: "delete_questions (kd # qs) s w = delete_questions qs s1 w1'"
    using dq(1) by (cases r) (simp_all add: w1'_def)
  have st: "steady s1 w1'"
    using dq(2) by (cases r) (simp_all add: w1'_def)
  have pr: "pruned C1 w0 w1'"
    using dq(3) by (cases r) (simp_all add: w1'_def)
  have "read_fault i w1' = read_fault i w1" for i
    by (cases r) (simp_all add: w1'_def)
  then have rf: "read_fault i w1' = read_fault (Suc i) w" for i
    using read_fault_tl [OF dq(5)] by simp
  obtain s' w' C' where rest: "delete_questions qs s1 w1' = (s', w')" "steady s' w'"
    "pruned C' w0 w'" "family_closed w0 (C' \<union> set (ops (batch s')))"
    "C1 \<union> set (ops (batch s1)) \<subseteq> C' \<union> set (ops (batch s'))"
    "\<forall>i < length qs. read_fault i w1' = None \<longrightarrow>
        QuestionRef (fst (qs ! i)) \<in> C' \<union> set (ops (batch s'))"
    using Cons.IH [OF st pr fc sub] by blast
  have idx: "\<forall>i < length (kd # qs). read_fault i w = None \<longrightarrow>
      QuestionRef (fst ((kd # qs) ! i)) \<in> C' \<union> set (ops (batch s'))"
  proof (intro allI impI)
    fix i assume i: "i < length (kd # qs)" "read_fault i w = None"
    show "QuestionRef (fst ((kd # qs) ! i)) \<in> C' \<union> set (ops (batch s'))"
    proof (cases i)
      case 0
      then have "QuestionRef (fst kd) \<in> C1 \<union> set (ops (batch s1))" using i head by simp
      then show ?thesis using 0 rest(5) by auto
    next
      case (Suc j)
      then have "j < length qs" "read_fault j w1' = None" using i rf by simp_all
      then have "QuestionRef (fst (qs ! j)) \<in> C' \<union> set (ops (batch s'))"
        using rest(6) by blast
      then show ?thesis using Suc by simp
    qed
  qed
  have sub': "C \<union> set (ops (batch s)) \<subseteq> C' \<union> set (ops (batch s'))"
    using mono rest(5) by blast
  have "delete_questions (kd # qs) s w = (s', w')"
    using run rest(1) by simp
  then show ?case
    using rest(2,3,4) sub' idx by blast
qed

lemma pruned_same:
  "question_docs w' = question_docs w \<Longrightarrow> answer_docs w' = answer_docs w \<Longrightarrow> pruned {} w w'"
  by (simp add: pruned_def case_prod_unfold)

lemma family_closed_empty: "family_closed w {}"
  by (simp add: family_closed_def)

lemma cleanup_posts_pruned:
  assumes "\<forall>f \<in> set (write_faults w). f = None"
  shows "\<exists>G. family_closed w G \<and> pruned G w (snd (cleanupExpiredPosts w))
           \<and> (read_fault 0 w = None \<longrightarrow>
                (\<forall>i < length (matched_posts w). read_fault (Suc i) w = None \<longrightarrow>
                   QuestionRef (fst (matched_posts w ! i)) \<in> G))"
proof (cases "fst (next_fault (read_faults w))")
  case (Some e)
  then have "pruned {} w (snd (cleanupExpiredPosts w))"
    by (intro pruned_same) (simp_all add: cleanupExpiredPosts_def run_query_eq console_log_def)
  moreover have "read_fault 0 w \<noteq> None"
    using Some by (simp add: read_fault_def)
  ultimately show ?thesis using family_closed_empty by (intro exI [of _ "{}"]) auto
next
  case None
  let ?qs = "matched_posts w"
  let ?w1 = "(console_log LogStart w)\<lparr>read_faults := snd (next_fault (read_faults w))\<rparr>"
  have rq: "run_query (question_docs w) (expired (date_now w)) 500 (console_log LogStart w)
      = (Normal ?qs, ?w1)"
    using None by (simp add: run_query_eq console_log_def matched_posts_def)
  show ?thesis
  proof (cases "?qs = []")
    case True
    then have "pruned {} w (snd (cleanupExpiredPosts w))"
      using rq by (intro pruned_same) (simp_all add: cleanupExpiredPosts_def console_log_def)
    then show ?thesis
      using family_closed_empty True by (intro exI [of _ "{}"]) simp
  next
    case False
    let ?w2 = "console_log (LogFound (length ?qs)) ?w1"
    have st: "steady initial_state ?w2"
      using assms
      by (simp add: steady_def initial_state_def new_batch_def MAX_BATCH_SIZE_def console_log_def)
    have pr: "pruned {} w ?w2"
      by (intro pruned_same) (simp_all add: console_log_def)
    have fc: "family_closed w ({} \<union> set (ops (batch initial_state)))"
      by (simp add: initial_state_def new_batch_def family_closed_def)
    have keys: "fst ` set ?qs \<subseteq> fst ` set (question_docs w)"
      by (auto simp: matched_posts_def dest!: in_set_takeD)
    have rf: "read_fault i ?w2 = read_fault (Suc i) w" for i
      by (simp add: read_fault_def snd_next_fault console_log_def drop_Suc)
    obtain s w3 C where dq: "delete_questions ?qs initial_state ?w2 = (s, w3)" "steady s w3"
      "pruned C w w3" "family_closed w (C \<union> set (ops (batch s)))"
      "\<forall>i < length ?qs. read_fault i ?w2 = None \<longrightarrow>
          QuestionRef (fst (?qs ! i)) \<in> C \<union> set (ops (batch s))"
      using delete_questions_steady [OF st pr fc keys] by blast
    have idx: "\<forall>i < length ?qs. read_fault (Suc i) w = None \<longrightarrow>
          QuestionRef (fst (?qs ! i)) \<in> C \<union> set (ops (batch s))"
      using dq(5) rf by simp
    show ?thesis
    proof (cases "batchOperations s > 0")
      case True
      have nf: "\<forall>f \<in> set (write_faults w3). f = None"
        using dq(2) by (simp add: steady_def)
      let ?w4 = "apply_deletes (ops (batch s)) (requested (Commit (ops (batch s))) w3)"
      have "snd (cleanupExpiredPosts w) =
          console_log (LogDone (deletedCount s) (totalAnswersDeleted s)) ?w4"
        using rq False dq(1) True batch_commit_accepted [OF nf]
        by (simp add: cleanupExpiredPosts_def)
      moreover have "pruned (C \<union> set (ops (batch s))) w ?w4"
        using pruned_commit [OF dq(3)] .
      ultimately show ?thesis using dq(4) idx by (intro exI [of _ "C \<union> set (ops (batch s))"]) simp
    next
      case zero: False
      then have e: "ops (batch s) = []"
        using dq(2) by (simp add: steady_def)
      then have "family_closed w C" using dq(4) by simp
      moreover have "pruned C w (snd (cleanupExpiredPosts w))"
        using rq False dq(1,3) zero by (simp add: cleanupExpiredPosts_def)
      ultimately show ?thesis using idx e by (intro exI [of _ C]) simp
    qed
  qed
qed

text \<open>
  C6, as the code has it. In a run where the store accepts every commit, whatever
  it answers to the reads, an answer is deleted if and only if its question is
  deleted.
\<close>

theorem content_reaper_family:
  assumes "\<forall>f \<in> set (write_faults w). f = None"
    and "((q, a), d) \<in> set (answer_docs w)"
  shows "(q, a) \<notin> fst ` set (answer_docs (snd (cleanupExpiredPosts w))) \<longleftrightarrow>
         q \<in> fst ` set (question_docs w) \<and> q \<notin> fst ` set (question_docs (snd (cleanupExpiredPosts w)))"
proof -
  obtain G where G: "family_closed w G" "pruned G w (snd (cleanupExpiredPosts w))"
    using cleanup_posts_pruned [OF assms(1)] by blast
  have ans: "(q, a) \<notin> fst ` set (answer_docs (snd (cleanupExpiredPosts w))) \<longleftrightarrow> AnswerRef q a \<in> G"
    using G(2) assms(2) by (force simp: pruned_def)
  have que: "q \<in> fst ` set (question_docs w) \<and> q \<notin> fst ` set (question_docs (snd (cleanupExpiredPosts w)))
      \<longleftrightarrow> QuestionRef q \<in> G"
  proof
    assume "q \<in> fst ` set (question_docs w) \<and> q \<notin> fst ` set (question_docs (snd (cleanupExpiredPosts w)))"
    then show "QuestionRef q \<in> G"
      using G(2) by (force simp: pruned_def)
  next
    assume in_G: "QuestionRef q \<in> G"
    then have "q \<in> fst ` set (question_docs w)"
      using G(1) by (simp add: family_closed_def)
    moreover have "q \<notin> fst ` set (question_docs (snd (cleanupExpiredPosts w)))"
      using G(2) in_G by (auto simp: pruned_def)
    ultimately show "q \<in> fst ` set (question_docs w) \<and> q \<notin> fst ` set (question_docs (snd (cleanupExpiredPosts w)))"
      by simp
  qed
  have "AnswerRef q a \<in> G \<longleftrightarrow> QuestionRef q \<in> G"
    using G(1) assms(2) unfolding family_closed_def by blast
  with ans que show ?thesis by simp
qed

text \<open>
  What does hold of the isolation of failures: when the store accepts every commit,
  a matched question whose answers are read is deleted, whichever reads of other
  questions fail.
\<close>

lemma content_reaper_isolates_reads:
  assumes "\<forall>f \<in> set (write_faults w). f = None"
    and "read_fault 0 w = None"
    and "i < length (matched_posts w)" and "read_fault (Suc i) w = None"
  shows "fst (matched_posts w ! i) \<notin> fst ` set (question_docs (snd (cleanupExpiredPosts w)))"
proof -
  obtain G where G: "pruned G w (snd (cleanupExpiredPosts w))"
    "QuestionRef (fst (matched_posts w ! i)) \<in> G"
    using cleanup_posts_pruned [OF assms(1)] assms(2-4) by blast
  then show ?thesis by (auto simp: pruned_def)
qed

lemma delete_answers_queue:
  assumes "\<not> committed (batch s)" and "batchOperations s + length as < MAX_BATCH_SIZE"
  shows "delete_answers as s w =
    (Normal (), s\<lparr>batch := (batch s)\<lparr>ops := rev as @ ops (batch s)\<rparr>,
                  batchOperations := batchOperations s + length as,
                  totalAnswersDeleted := totalAnswersDeleted s + length as\<rparr>, w)"
  using assms
proof (induction as arbitrary: s)
  case Nil
  then show ?case by simp
next
  case (Cons a as)
  let ?s1 = "s\<lparr>batch := (batch s)\<lparr>ops := a # ops (batch s)\<rparr>,
                 batchOperations := batchOperations s + 1,
                 totalAnswersDeleted := totalAnswersDeleted s + 1\<rparr>"
  have "delete_answers (a # as) s w = delete_answers as ?s1 w"
    using Cons.prems by (simp add: batch_delete_def commit_if_full_def)
  also have "\<dots> = (Normal (), ?s1\<lparr>batch := (batch ?s1)\<lparr>ops := rev as @ ops (batch ?s1)\<rparr>,
                  batchOperations := batchOperations ?s1 + length as,
                  totalAnswersDeleted := totalAnswersDeleted ?s1 + length as\<rparr>, w)"
    by (rule Cons.IH) (use Cons.prems in simp_all)
  finally show ?case by simp
qed

lemma delete_answers_append:
  "delete_answers (xs @ ys) s w =
     (case delete_answers xs s w of
        (Normal u, s1, w1) \<Rightarrow> delete_answers ys s1 w1
      | (Throw e, s1, w1) \<Rightarrow> (Throw e, s1, w1))"
  by (induction xs arbitrary: s w) (auto split: completion.splits prod.splits)

lemma delete_answers_full:
  assumes "\<not> committed (batch s)" and "batchOperations s + length as = MAX_BATCH_SIZE"
    and "as \<noteq> []"
  shows "delete_answers as s w =
    (case batch_commit ((batch s)\<lparr>ops := rev as @ ops (batch s)\<rparr>) w of
       (Throw e, b, w1) \<Rightarrow>
         (Throw e, s\<lparr>batch := b, batchOperations := MAX_BATCH_SIZE,
                     totalAnswersDeleted := totalAnswersDeleted s + length as\<rparr>, w1)
     | (Normal u, b, w1) \<Rightarrow>
         (Normal (), s\<lparr>batch := new_batch, batchOperations := 0,
                       totalAnswersDeleted := totalAnswersDeleted s + length as\<rparr>,
          console_log (LogProgress (deletedCount s) (totalAnswersDeleted s + length as)) w1))"
proof -
  obtain xs a where as: "as = xs @ [a]"
    using assms(3) by (metis append_butlast_last_id)
  have below: "batchOperations s + length xs < MAX_BATCH_SIZE"
    using assms(2) as by simp
  have full: "Suc (batchOperations s + length xs) = MAX_BATCH_SIZE"
    using assms(2) as by simp
  show ?thesis
    unfolding as delete_answers_append delete_answers_queue [OF assms(1) below]
    using assms(1) full
    by (simp add: batch_delete_def commit_if_full_def split: completion.splits prod.splits)
qed

lemma answers_of_thread:
  assumes "answer_docs w = answers_fixture ''A'' 500"
  shows "answers_of ''A'' w = thread_refs" and "answers_of ''B'' w = []"
  using assms by (simp_all add: answers_of_def answers_fixture_def thread_refs_def comp_def)

lemma upt_501: "[0..<501] = [0..<500] @ [500::nat]"
  using upt_Suc_append [of 0 500] by simp

lemma answers_of_long_thread:
  assumes "answer_docs w = answers_fixture ''A'' 501"
  shows "answers_of ''A'' w = thread_refs @ [AnswerRef ''A'' (show_nat 500)]"
  using assms by (simp add: answers_of_def answers_fixture_def thread_refs_def comp_def upt_501)

lemma thread_refs_length: "length thread_refs = 500" and thread_refs_nonempty: "thread_refs \<noteq> []"
  by (simp_all add: thread_refs_def)

lemma thread_answers_gone:
  "filter (\<lambda>((q, a), d). AnswerRef q a \<notin> set thread_refs) (answers_fixture ''A'' 500) = []"
  by (auto simp: filter_empty_conv answers_fixture_def thread_refs_def)

lemma question_not_thread: "QuestionRef k \<notin> set thread_refs"
  by (auto simp: thread_refs_def)

lemmas content_reaper_defs = cleanupExpiredPosts_def run_query_def delete_question_def
  get_answers_def batch_commit_def batch_delete_def commit_if_full_def apply_deletes_def
  initial_state_def new_batch_def MAX_BATCH_SIZE_def console_log_def expired_def
  time_before_def field_def

lemmas thread_facts = answers_of_thread delete_answers_full thread_refs_length
  thread_refs_nonempty thread_answers_gone question_not_thread

text \<open>
  C6 as stated fails: a question with 500 answers; the commit of the 500 deletions
  of answers is accepted, the commit that deletes the question is refused. The
  answers are gone and the question is still there. So it is when the first commit
  is refused, inside the loop, and the last one, which sends the same batch again,
  is accepted.
\<close>

theorem content_reaper_family_counterexample:
  "length (answer_docs (thread_world 500 [(''A'', stale_post)] [None, Some unavailable])) = 500
   \<and> fst (cleanupExpiredPosts (thread_world 500 [(''A'', stale_post)] [None, Some unavailable])) =
       Throw unavailable
   \<and> answer_docs (snd (cleanupExpiredPosts
        (thread_world 500 [(''A'', stale_post)] [None, Some unavailable]))) = []
   \<and> question_docs (snd (cleanupExpiredPosts
        (thread_world 500 [(''A'', stale_post)] [None, Some unavailable]))) = [(''A'', stale_post)]
   \<and> fst (cleanupExpiredPosts (thread_world 500 [(''A'', stale_post)] [Some unavailable])) =
       Normal ()
   \<and> answer_docs (snd (cleanupExpiredPosts
        (thread_world 500 [(''A'', stale_post)] [Some unavailable]))) = []
   \<and> question_docs (snd (cleanupExpiredPosts
        (thread_world 500 [(''A'', stale_post)] [Some unavailable]))) = [(''A'', stale_post)]"
  by (simp add: content_reaper_defs thread_facts thread_world_def stale_post_def
        answers_fixture_def [THEN arg_cong [where f = length]])

text \<open>
  C7. Two expired questions, \<^verbatim>\<open>A\<close> with 500 answers and \<^verbatim>\<open>B\<close> with none; the
  store refuses the first commit, requested while \<^verbatim>\<open>A\<close> is processed. The error
  is caught and logged, but the batch stays committed and full: the deletion of
  \<^verbatim>\<open>B\<close> is refused by the batch, logged as well, and \<^verbatim>\<open>B\<close> is still there at
  the end, as is \<^verbatim>\<open>A\<close>; the last commit sends the 500 deletions again.
\<close>

theorem content_reaper_isolation_failure:
  "fst (cleanupExpiredPosts (thread_world 500 [(''A'', stale_post), (''B'', stale_post)]
          [Some unavailable])) = Normal ()
   \<and> question_docs (snd (cleanupExpiredPosts (thread_world 500 [(''A'', stale_post), (''B'', stale_post)]
          [Some unavailable]))) = [(''A'', stale_post), (''B'', stale_post)]
   \<and> console (snd (cleanupExpiredPosts (thread_world 500 [(''A'', stale_post), (''B'', stale_post)]
          [Some unavailable]))) =
       [LogDone 0 500, ErrDeleteQuestion ''B'' batch_sealed, ErrDeleteQuestion ''A'' unavailable,
        LogFound 2, LogStart]
   \<and> commits (calls (snd (cleanupExpiredPosts (thread_world 500 [(''A'', stale_post), (''B'', stale_post)]
          [Some unavailable])))) = [rev thread_refs, rev thread_refs]"
  by (simp add: content_reaper_defs thread_facts thread_world_def stale_post_def)

theorem content_reaper_batch_cap_witness:
  "commits (issued (thread_world 501 [(''A'', stale_post)] [])
      (snd (cleanupExpiredPosts (thread_world 501 [(''A'', stale_post)] [])))) =
     [[QuestionRef ''A'', AnswerRef ''A'' (show_nat 500)], rev thread_refs]
   \<and> length (rev thread_refs) \<le> MAX_BATCH_SIZE
   \<and> length [QuestionRef ''A'', AnswerRef ''A'' (show_nat 500)] \<le> MAX_BATCH_SIZE"
proof -
  let ?w = "thread_world 501 [(''A'', stale_post)] []"
  have c: "calls (snd (cleanupExpiredPosts ?w)) =
      [Commit [QuestionRef ''A'', AnswerRef ''A'' (show_nat 500)], Commit (rev thread_refs)] @ calls ?w"
    by (simp add: content_reaper_defs thread_facts answers_of_long_thread delete_answers_append
          thread_world_def stale_post_def)
  have i: "commits (issued ?w (snd (cleanupExpiredPosts ?w))) =
      [[QuestionRef ''A'', AnswerRef ''A'' (show_nat 500)], rev thread_refs]"
    using issued_append [OF c] by simp
  then show ?thesis
    using content_reaper_batch_cap [of ?w] by simp
qed

theorem content_reaper_family_witness:
  "write_faults small_forum = []
   \<and> ((''q1'', ''a1''), []) \<in> set (answer_docs small_forum)
   \<and> ((''q2'', ''b1''), []) \<in> set (answer_docs small_forum)
   \<and> map fst (question_docs (snd (cleanupExpiredPosts small_forum))) = [''q2'', ''q3'']
   \<and> (''q1'', ''a1'') \<notin> fst ` set (answer_docs (snd (cleanupExpiredPosts small_forum)))
   \<and> (''q2'', ''b1'') \<in> fst ` set (answer_docs (snd (cleanupExpiredPosts small_forum)))"
proof -
  have f: "\<forall>f \<in> set (write_faults small_forum). f = None"
    by (simp add: small_forum_def)
  have a: "((''q1'', ''a1''), []) \<in> set (answer_docs small_forum)"
    "((''q2'', ''b1''), []) \<in> set (answer_docs small_forum)"
    by (simp_all add: small_forum_def)
  have q0: "map fst (question_docs small_forum) = [''q1'', ''q2'', ''q3'']"
    by (simp add: small_forum_def)
  have q: "map fst (question_docs (snd (cleanupExpiredPosts small_forum))) = [''q2'', ''q3'']"
    by (simp add: content_reaper_defs answers_of_def small_forum_def stale_post_def fresh_post_def)
  have k0: "fst ` set (question_docs small_forum) = {''q1'', ''q2'', ''q3''}"
    using q0 by (metis list.set_map list.simps(15) empty_set)
  have k: "fst ` set (question_docs (snd (cleanupExpiredPosts small_forum))) = {''q2'', ''q3''}"
    using q by (metis list.set_map list.simps(15) empty_set)
  have e: "write_faults small_forum = []"
    by (simp add: small_forum_def)
  show ?thesis
    using e a q content_reaper_family [OF f a(1)] content_reaper_family [OF f a(2)]
    by (simp add: k0 k)
qed

end
